theory Spec2Isabelle
  imports
    Complex_Main
    "HOL-Library.Log_Nat"
    "HOL-Library.Char_ord"
    "HOL-Library.List_Lexorder"
    "HOL-Library.Multiset"
begin

section \<open>BlackRoad customer journey mapper\<close>

text \<open>
  A shallow embedding of \<^verbatim>\<open>src/customer_journey.py\<close>: the five SQLite tables as lists of
  rows in rowid order, every method of \<^verbatim>\<open>CustomerJourneyMapper\<close> that the claims talk about
  as a function from the storage state to a result (and a new state when it writes).

  What the program takes from its environment is an argument of the model: the identifiers
  drawn by \<^verbatim>\<open>uuid.uuid4()\<close>, the clock value \<^verbatim>\<open>datetime.utcnow().isoformat()\<close>, the
  cutoff string of the funnel's time window (the clock minus \<^verbatim>\<open>days\<close>, in ISO format),
  and, for the heatmap, the library's parser of timestamps and its subtraction of the window
  from the clock. A value that the program hands to a library before it writes can make the
  library raise; these are error values: \<open>TypeError\<close> for metadata that does not
  serialise, \<open>OverflowError\<close> for an integer that SQLite cannot store or a window that
  the library cannot compute. A primary key that is already in the table makes SQLite
  raise, which is the error value \<open>IntegrityError\<close>. Foreign keys are declared in the
  schema and not enforced (the connection never switches them on), so no insert checks that
  a session exists. Timestamps are text, as every operation writes them.

  The two aggregations that no property below is about, the top conversion paths and the
  channel attribution, and the command line are left out.
\<close>

subsection \<open>Python floats\<close>

text \<open>
  A Python \<^verbatim>\<open>float\<close> is an IEEE-754 binary64 number. A finite one is a rational, and each
  arithmetic operation returns the exact result rounded to the nearest number with a 53-bit
  significand, ties to the even significand. The exponent is left unbounded: overflow to
  infinity and subnormal numbers are outside the model (the values here are counts, sums of money
  and percentages).
\<close>

definition round_half_even :: "rat \<Rightarrow> int" where
  "round_half_even x =
     (let f = \<lfloor>x\<rfloor>; d = x - of_int f
      in if d < 1 / 2 then f
         else if 1 / 2 < d then f + 1
         else if even f then f else f + 1)"

text \<open>\<open>expo x\<close> is the integer \<open>k\<close> with \<open>2^k \<le> |x| < 2^(k+1)\<close>, for \<open>x \<noteq> 0\<close>.\<close>

definition expo :: "rat \<Rightarrow> int" where
  "expo x =
     (if 1 \<le> \<bar>x\<bar> then bitlen \<lfloor>\<bar>x\<bar>\<rfloor> - 1
      else - bitlen (\<lceil>1 / \<bar>x\<bar>\<rceil> - 1))"

text \<open>
  \<open>fl x\<close> is the float nearest to \<open>x\<close>: \<open>x\<close> in units of the last place of its binade,
  rounded to an integer.
\<close>

definition fl :: "rat \<Rightarrow> rat" where
  "fl x =
     (if x = 0 then 0
      else let u = 2 powi (expo x - 52)
           in of_int (round_half_even (x / u)) * u)"

definition fadd :: "rat \<Rightarrow> rat \<Rightarrow> rat" where
  "fadd x y = fl (x + y)"

definition fsub :: "rat \<Rightarrow> rat \<Rightarrow> rat" where
  "fsub x y = fl (x - y)"

definition fmul :: "rat \<Rightarrow> rat \<Rightarrow> rat" where
  "fmul x y = fl (x * y)"

definition fdiv :: "rat \<Rightarrow> rat \<Rightarrow> rat" where
  "fdiv x y = fl (x / y)"

text \<open>
  \<^verbatim>\<open>round(x, 2)\<close>: the exact value of \<open>x\<close> rounded to two decimals, ties to even, and
  that decimal converted back to the nearest float.
\<close>

definition round2 :: "rat \<Rightarrow> rat" where
  "round2 x = fl (of_int (round_half_even (x * 100)) / 100)"

subsection \<open>Strings\<close>

text \<open>
  A string is its UTF-8 bytes. The arrow of the path separator, U+2192, is the three bytes
  \<open>E2 86 92\<close>.
\<close>

definition arrow_sep :: string where
  "arrow_sep = [CHR '' '', CHR 0xE2, CHR 0x86, CHR 0x92, CHR '' '']"

fun join :: "string \<Rightarrow> string list \<Rightarrow> string" where
  "join sep [] = []"
| "join sep [x] = x"
| "join sep (x # y # ys) = x @ sep @ join sep (y # ys)"

definition digit_char :: "nat \<Rightarrow> char" where
  "digit_char d = char_of (48 + d)"

fun str_nat_fuel :: "nat \<Rightarrow> nat \<Rightarrow> string" where
  "str_nat_fuel 0 n = [digit_char (n mod 10)]"
| "str_nat_fuel (Suc k) n =
     (if n < 10 then [digit_char n] else str_nat_fuel k (n div 10) @ [digit_char (n mod 10)])"

text \<open>\<^verbatim>\<open>str(n)\<close> of a natural number: \<open>n\<close> has at most \<open>n + 1\<close> digits.\<close>

definition str_nat :: "nat \<Rightarrow> string" where
  "str_nat n = str_nat_fuel n n"

subsection \<open>The tables\<close>

record funnel_stage =
  fs_id :: string
  fs_name :: string
  fs_position :: int
  fs_description :: string
  fs_entry_event :: string
  fs_exit_event :: string

record customer_session =
  s_id :: string
  s_customer_id :: string
  s_start_time :: string
  s_end_time :: "string option"
  s_channel :: string
  s_device :: string
  s_converted :: bool
  s_conversion_value :: rat

text \<open>
  The metadata column holds the text \<^verbatim>\<open>json.dumps(metadata or {})\<close>; the program never
  reads it back, and the model takes the serialised text as it is.
\<close>

record touchpoint =
  tp_id :: string
  tp_session_id :: string
  tp_customer_id :: string
  tp_channel :: string
  tp_page :: string
  tp_event_type :: string
  tp_timestamp :: string
  tp_duration_ms :: int
  tp_metadata :: string

record conversion_path =
  cp_id :: string
  cp_session_id :: string
  cp_stages_visited :: "string list"
  cp_path_signature :: string
  cp_converted :: bool
  cp_created_at :: string

record dropoff_event =
  de_id :: string
  de_session_id :: string
  de_stage_id :: string
  de_stage_name :: string
  de_timestamp :: string
  de_reason :: string

record db =
  funnel_stages :: "funnel_stage list"
  sessions :: "customer_session list"
  touchpoints :: "touchpoint list"
  conversion_paths :: "conversion_path list"
  dropoff_events :: "dropoff_event list"

definition init_db :: db where
  "init_db = \<lparr>funnel_stages = [], sessions = [], touchpoints = [],
              conversion_paths = [], dropoff_events = []\<rparr>"

text \<open>
  What the program can raise: SQLite's \<^verbatim>\<open>IntegrityError\<close> for a primary key that is
  taken, the binding's \<^verbatim>\<open>OverflowError\<close> for an integer outside SQLite's signed 64 bits
  (and the library's for a window outside its dates), \<^verbatim>\<open>json.dumps\<close>'s
  \<^verbatim>\<open>TypeError\<close>, and Python's own \<^verbatim>\<open>ZeroDivisionError\<close> and \<^verbatim>\<open>IndexError\<close>.
\<close>

datatype error = IntegrityError | OverflowError | TypeError | ZeroDivisionError | IndexError

text \<open>The integers that SQLite stores.\<close>

definition int64_range :: "int \<Rightarrow> bool" where
  "int64_range n \<longleftrightarrow> - (2 ^ 63) \<le> n \<and> n < 2 ^ 63"

subsection \<open>Queries\<close>

text \<open>
  \<^verbatim>\<open>ORDER BY position\<close>: SQL leaves the order of rows with equal keys open. SQLite sorts
  stably, so such rows stay in the order in which the query produced them, and a scan of a
  table produces them in rowid order, which is insertion order here since no row is ever
  deleted but a replaced stage (whose new row goes to the end).
\<close>

definition order_by_position :: "funnel_stage list \<Rightarrow> funnel_stage list" where
  "order_by_position = sort_key fs_position"

text \<open>\<^verbatim>\<open>SELECT DISTINCT\<close> keeps the first occurrence of each row.\<close>

definition select_distinct :: "'a list \<Rightarrow> 'a list" where
  "select_distinct xs = rev (remdups (rev xs))"

subsection \<open>Stage management\<close>

text \<open>
  \<^verbatim>\<open>INSERT OR REPLACE\<close> deletes every row that conflicts with the new one on the primary
  key \<open>id\<close> or on the unique \<open>name\<close>, then inserts. A position outside 64 bits cannot be
  bound to the statement.
\<close>

definition define_funnel_stage ::
  "db \<Rightarrow> string \<Rightarrow> string \<Rightarrow> int \<Rightarrow> string \<Rightarrow> string \<Rightarrow> string
     \<Rightarrow> error + (db \<times> funnel_stage)" where
  "define_funnel_stage d stage_id name position description entry_event exit_event =
     (if \<not> int64_range position then Inl OverflowError
      else
        let st = \<lparr>fs_id = stage_id, fs_name = name, fs_position = position,
                  fs_description = description, fs_entry_event = entry_event,
                  fs_exit_event = exit_event\<rparr>
        in Inr (d\<lparr>funnel_stages :=
                    filter (\<lambda>fs. fs_id fs \<noteq> stage_id \<and> fs_name fs \<noteq> name) (funnel_stages d)
                    @ [st]\<rparr>,
                st))"

subsection \<open>Session lifecycle\<close>

definition start_session ::
  "db \<Rightarrow> string \<Rightarrow> string \<Rightarrow> string \<Rightarrow> string \<Rightarrow> string \<Rightarrow> error + (db \<times> string)" where
  "start_session d session_id now customer_id channel device =
     (if session_id \<in> set (map s_id (sessions d)) then Inl IntegrityError
      else Inr (d\<lparr>sessions := sessions d @
                   [\<lparr>s_id = session_id, s_customer_id = customer_id, s_start_time = now,
                     s_end_time = None, s_channel = channel, s_device = device,
                     s_converted = False, s_conversion_value = 0\<rparr>]\<rparr>,
                session_id))"

record stage_info =
  stage_entered :: string
  si_position :: int
  si_stage_id :: string

text \<open>
  The result dictionary \<^verbatim>\<open>{"touchpoint_id": tp_id, **stage_info}\<close>: the three stage keys
  are there together or not at all.
\<close>

record touchpoint_result =
  touchpoint_id :: string
  stage_fields :: "stage_info option"

definition stages_with_entry_event :: "db \<Rightarrow> string \<Rightarrow> funnel_stage list" where
  "stages_with_entry_event d event_type =
     order_by_position (filter (\<lambda>fs. fs_entry_event fs = event_type) (funnel_stages d))"

text \<open>
  \<^verbatim>\<open>record_touchpoint\<close>. The argument \<open>meta\<close> is the outcome of
  \<^verbatim>\<open>json.dumps(metadata or {})\<close>, which runs first: the text, or \<open>None\<close> when the
  metadata cannot be serialised and the call raises \<^verbatim>\<open>TypeError\<close>. Binding the values to
  the insert raises \<^verbatim>\<open>OverflowError\<close> for a duration outside 64 bits, before any row is
  written.
\<close>

definition record_touchpoint ::
  "db \<Rightarrow> string \<Rightarrow> string \<Rightarrow> string \<Rightarrow> string \<Rightarrow> string \<Rightarrow> string \<Rightarrow> string \<Rightarrow> int
     \<Rightarrow> string option \<Rightarrow> error + (db \<times> touchpoint_result)" where
  "record_touchpoint d new_id now session_id customer_id channel page event_type duration_ms
       meta =
     (case meta of
        None \<Rightarrow> Inl TypeError
      | Some meta_str \<Rightarrow>
          if \<not> int64_range duration_ms then Inl OverflowError
          else if new_id \<in> set (map tp_id (touchpoints d)) then Inl IntegrityError
          else
            let d' = d\<lparr>touchpoints := touchpoints d @
                        [\<lparr>tp_id = new_id, tp_session_id = session_id,
                          tp_customer_id = customer_id, tp_channel = channel, tp_page = page,
                          tp_event_type = event_type, tp_timestamp = now,
                          tp_duration_ms = duration_ms, tp_metadata = meta_str\<rparr>]\<rparr>;
                stage = (case stages_with_entry_event d' event_type of
                           [] \<Rightarrow> None
                         | row # _ \<Rightarrow> Some \<lparr>stage_entered = fs_name row,
                                            si_position = fs_position row,
                                            si_stage_id = fs_id row\<rparr>)
            in Inr (d', \<lparr>touchpoint_id = new_id, stage_fields = stage\<rparr>))"

text \<open>
  The stages of a session, as \<^verbatim>\<open>end_session\<close> selects them: the join runs over the
  session's touchpoints in rowid order and, for each, over the stages in rowid order.
\<close>

definition session_stage_rows :: "db \<Rightarrow> string \<Rightarrow> (string \<times> string \<times> int) list" where
  "session_stage_rows d session_id =
     sort_key (\<lambda>(i, n, p). p)
       (select_distinct
          [(fs_id fs, fs_name fs, fs_position fs).
             tp \<leftarrow> touchpoints d, tp_session_id tp = session_id,
             fs \<leftarrow> funnel_stages d, tp_event_type tp = fs_entry_event fs])"

definition path_signature_of :: "string list \<Rightarrow> string" where
  "path_signature_of stages_visited =
     (if stages_visited \<noteq> [] then join arrow_sep stages_visited else ''direct'')"

definition end_session ::
  "db \<Rightarrow> string \<Rightarrow> string \<Rightarrow> string \<Rightarrow> string \<Rightarrow> bool \<Rightarrow> rat \<Rightarrow> error + (db \<times> conversion_path)" where
  "end_session d path_id drop_id now session_id converted conversion_value =
     (let d1 = d\<lparr>sessions :=
                  map (\<lambda>s. if s_id s = session_id
                            then s\<lparr>s_end_time := Some now, s_converted := converted,
                                   s_conversion_value := conversion_value\<rparr>
                            else s) (sessions d)\<rparr>;
          stages_visited = map (\<lambda>(i, n, p). n) (session_stage_rows d1 session_id);
          path_signature = path_signature_of stages_visited;
          path = \<lparr>cp_id = path_id, cp_session_id = session_id,
                  cp_stages_visited = stages_visited, cp_path_signature = path_signature,
                  cp_converted = converted, cp_created_at = now\<rparr>
      in if path_id \<in> set (map cp_id (conversion_paths d1)) then Inl IntegrityError
         else
           let d2 = d1\<lparr>conversion_paths := conversion_paths d1 @ [path]\<rparr>
           in if \<not> converted then
                (case find (\<lambda>st. fs_name st \<notin> set stages_visited)
                        (order_by_position (funnel_stages d2)) of
                   None \<Rightarrow> Inr (d2, path)
                 | Some st \<Rightarrow>
                     if drop_id \<in> set (map de_id (dropoff_events d2)) then Inl IntegrityError
                     else Inr (d2\<lparr>dropoff_events := dropoff_events d2 @
                                    [\<lparr>de_id = drop_id, de_session_id = session_id,
                                      de_stage_id = fs_id st, de_stage_name = fs_name st,
                                      de_timestamp = now,
                                      de_reason = ''stage_not_reached''\<rparr>]\<rparr>,
                               path))
              else Inr (d2, path))"

text \<open>
  The stages a session has triggered, said without the query: the registered stages whose
  entry event is the event type of some touchpoint of the session.
\<close>

definition stage_row :: "funnel_stage \<Rightarrow> string \<times> string \<times> int" where
  "stage_row fs = (fs_id fs, fs_name fs, fs_position fs)"

definition matched_stages :: "db \<Rightarrow> string \<Rightarrow> funnel_stage set" where
  "matched_stages d session_id =
     {fs \<in> set (funnel_stages d).
        \<exists>tp \<in> set (touchpoints d).
          tp_session_id tp = session_id \<and> tp_event_type tp = fs_entry_event fs}"

subsection \<open>Funnel analysis\<close>

record funnel_row =
  fr_stage_id :: string
  fr_stage_name :: string
  fr_position :: int
  entry_count :: nat
  exit_count :: nat
  conversion_rate :: rat
  drop_off_rate :: rat
  avg_duration_ms :: rat

text \<open>
  \<^verbatim>\<open>COUNT(DISTINCT tp.session_id)\<close> over touchpoints joined with their sessions, for one
  event type and sessions started in the window. Strings compare bytewise, as the ISO
  timestamps do in SQLite.
\<close>

definition count_sessions_reaching :: "db \<Rightarrow> string \<Rightarrow> string \<Rightarrow> nat" where
  "count_sessions_reaching d event cutoff =
     length (remdups
       [tp_session_id tp.
          tp \<leftarrow> touchpoints d, s \<leftarrow> sessions d, tp_session_id tp = s_id s,
          tp_event_type tp = event \<and> cutoff \<le> s_start_time s])"

definition count_converted_reaching :: "db \<Rightarrow> string \<Rightarrow> string \<Rightarrow> nat" where
  "count_converted_reaching d event cutoff =
     length (remdups
       [s_id s.
          s \<leftarrow> sessions d, tp \<leftarrow> touchpoints d, s_id s = tp_session_id tp,
          s_converted s \<and> tp_event_type tp = event \<and> cutoff \<le> s_start_time s])"

text \<open>
  \<^verbatim>\<open>AVG(duration_ms)\<close> over the same join: \<open>NULL\<close> without rows, else the durations
  added up one by one in a float and divided by their number.
\<close>

definition avg_duration :: "db \<Rightarrow> string \<Rightarrow> string \<Rightarrow> rat option" where
  "avg_duration d event cutoff =
     (let ds = [tp_duration_ms tp.
                  tp \<leftarrow> touchpoints d, s \<leftarrow> sessions d, tp_session_id tp = s_id s,
                  tp_event_type tp = event \<and> cutoff \<le> s_start_time s]
      in if ds = [] then None
         else Some (fdiv (foldl (\<lambda>acc v. fadd acc (fl (of_int v))) 0 ds)
                      (fl (of_nat (length ds)))))"

text \<open>
  The loop over the stages: the exit count of a stage is the entry count of the stage after
  it, and that of the last stage is the count of converted sessions that reached it. (The
  method also counts all sessions of the window, and does not use the count.)
\<close>

fun funnel_rows :: "db \<Rightarrow> string \<Rightarrow> funnel_stage list \<Rightarrow> funnel_row list" where
  "funnel_rows d cutoff [] = []"
| "funnel_rows d cutoff (stage # rest) =
     (let entry_n = count_sessions_reaching d (fs_entry_event stage) cutoff;
          exit_n = (case rest of
                      next_stage # _ \<Rightarrow>
                        count_sessions_reaching d (fs_entry_event next_stage) cutoff
                    | [] \<Rightarrow> count_converted_reaching d (fs_entry_event stage) cutoff);
          rate = (if entry_n \<noteq> 0 then fmul (fdiv (of_nat exit_n) (of_nat entry_n)) 100
                  else 0);
          drop_rate = fsub 100 rate;
          avg_dur = (case avg_duration d (fs_entry_event stage) cutoff of
                       None \<Rightarrow> 0 | Some a \<Rightarrow> a)
      in \<lparr>fr_stage_id = fs_id stage, fr_stage_name = fs_name stage,
          fr_position = fs_position stage, entry_count = entry_n, exit_count = exit_n,
          conversion_rate = round2 rate, drop_off_rate = round2 drop_rate,
          avg_duration_ms = round2 avg_dur\<rparr>
         # funnel_rows d cutoff rest)"

definition analyze_funnel :: "db \<Rightarrow> string \<Rightarrow> funnel_row list" where
  "analyze_funnel d cutoff = funnel_rows d cutoff (order_by_position (funnel_stages d))"

text \<open>
  The unrounded conversion rate of a row, \<^verbatim>\<open>exit_count / entry_count * 100\<close> in float
  arithmetic and 0 without entries, as a function of the two counts.
\<close>

definition raw_rate :: "nat \<Rightarrow> nat \<Rightarrow> rat" where
  "raw_rate entry_n exit_n =
     (if entry_n \<noteq> 0 then fmul (fdiv (of_nat exit_n) (of_nat entry_n)) 100 else 0)"

text \<open>
  What the two counting queries count, said without the queries: the distinct sessions
  started in the window that have a touchpoint of the event type, and those of them that
  converted.
\<close>

definition sessions_with_event :: "db \<Rightarrow> string \<Rightarrow> string \<Rightarrow> string set" where
  "sessions_with_event d event cutoff =
     {s_id s | s. s \<in> set (sessions d) \<and> cutoff \<le> s_start_time s
        \<and> (\<exists>tp \<in> set (touchpoints d). tp_session_id tp = s_id s \<and> tp_event_type tp = event)}"

definition converted_sessions_with_event :: "db \<Rightarrow> string \<Rightarrow> string \<Rightarrow> string set" where
  "converted_sessions_with_event d event cutoff =
     {s_id s | s. s \<in> set (sessions d) \<and> s_converted s \<and> cutoff \<le> s_start_time s
        \<and> (\<exists>tp \<in> set (touchpoints d). tp_session_id tp = s_id s \<and> tp_event_type tp = event)}"

subsection \<open>Dropoff analysis\<close>

text \<open>
  \<^verbatim>\<open>GROUP BY\<close> with \<^verbatim>\<open>COUNT(*)\<close>: one row per key, with the number of rows that have it.
  A result dictionary is the list of its items; its keys are distinct.
\<close>

definition group_count :: "'k list \<Rightarrow> ('k \<times> nat) list" where
  "group_count ks = map (\<lambda>k. (k, count_list ks k)) (select_distinct ks)"

definition order_by_count_desc :: "('k \<times> nat) list \<Rightarrow> ('k \<times> nat) list" where
  "order_by_count_desc = sort_key (\<lambda>(k, c). - int c)"

text \<open>
  \<^verbatim>\<open>CAST(text AS INTEGER)\<close>: leading white space is skipped, then an optional sign and the
  longest run of digits are read; no digits give 0.
\<close>

definition is_space :: "char \<Rightarrow> bool" where
  "is_space c \<longleftrightarrow> c \<in> {CHR 0x20, CHR 0x09, CHR 0x0A, CHR 0x0B, CHR 0x0C, CHR 0x0D}"

definition digit_val :: "char \<Rightarrow> nat option" where
  "digit_val c =
     (if CHR ''0'' \<le> c \<and> c \<le> CHR ''9'' then Some (of_char c - 48) else None)"

fun digits_prefix :: "nat \<Rightarrow> string \<Rightarrow> nat" where
  "digits_prefix acc [] = acc"
| "digits_prefix acc (c # cs) =
     (case digit_val c of None \<Rightarrow> acc | Some v \<Rightarrow> digits_prefix (acc * 10 + v) cs)"

definition cast_integer :: "string \<Rightarrow> int" where
  "cast_integer s =
     (case dropWhile is_space s of
        [] \<Rightarrow> 0
      | c # cs \<Rightarrow>
          if c = CHR ''-'' then - int (digits_prefix 0 cs)
          else if c = CHR ''+'' then int (digits_prefix 0 cs)
          else int (digits_prefix 0 (c # cs)))"

text \<open>\<^verbatim>\<open>SUBSTR(timestamp, 12, 2)\<close>: the two characters of the hour in an ISO timestamp.\<close>

definition hour_of_timestamp :: "string \<Rightarrow> int" where
  "hour_of_timestamp ts = cast_integer (take 2 (drop 11 ts))"

record dropoff_analysis =
  da_stage_id :: string
  reasons :: "(string \<times> nat) list"
  time_of_day :: "(int \<times> nat) list"
  by_channel :: "(string \<times> nat) list"
  total_dropoffs :: nat

definition analyze_dropoffs :: "db \<Rightarrow> string \<Rightarrow> dropoff_analysis" where
  "analyze_dropoffs d stage_id =
     (let evs = filter (\<lambda>de. de_stage_id de = stage_id) (dropoff_events d);
          reasons = order_by_count_desc (group_count (map de_reason evs));
          time_pattern =
            sort_key fst (group_count (map (\<lambda>de. hour_of_timestamp (de_timestamp de)) evs));
          channels =
            order_by_count_desc
              (group_count
                 [s_channel s. de \<leftarrow> evs, s \<leftarrow> sessions d, de_session_id de = s_id s])
      in \<lparr>da_stage_id = stage_id, reasons = reasons, time_of_day = time_pattern,
          by_channel = channels, total_dropoffs = sum_list (map snd reasons)\<rparr>)"

subsection \<open>Lifetime value segments\<close>

record ltv_segment =
  bucket :: nat
  ltv_min :: rat
  ltv_max :: rat
  customer_count :: nat
  label :: string

text \<open>
  \<^verbatim>\<open>SUM(conversion_value) ... WHERE converted = 1 GROUP BY customer_id\<close>: the values of a
  customer's converted sessions, added up as floats from 0.0.
\<close>

definition customer_ltv_rows :: "db \<Rightarrow> (string \<times> rat) list" where
  "customer_ltv_rows d =
     (let conv = filter s_converted (sessions d)
      in map (\<lambda>c. (c, foldl fadd 0 [s_conversion_value s. s \<leftarrow> conv, s_customer_id s = c]))
           (select_distinct (map s_customer_id conv)))"

definition ltv_segment_at ::
  "(string \<times> rat) list \<Rightarrow> int \<Rightarrow> rat \<Rightarrow> rat \<Rightarrow> nat \<Rightarrow> ltv_segment" where
  "ltv_segment_at rows buckets min_ltv width i =
     (let lo = fadd min_ltv (fmul (fl (of_nat i)) width);
          hi = fadd lo width;
          members = (if int i = buckets - 1
                     then filter (\<lambda>(c, ltv). lo \<le> ltv \<and> ltv \<le> hi) rows
                     else filter (\<lambda>(c, ltv). lo \<le> ltv \<and> ltv < hi) rows)
      in \<lparr>bucket = i + 1, ltv_min = round2 lo, ltv_max = round2 hi,
          customer_count = length members, label = ''Segment '' @ str_nat (i + 1)\<rparr>)"

definition compute_customer_ltv_segments :: "db \<Rightarrow> int \<Rightarrow> error + ltv_segment list" where
  "compute_customer_ltv_segments d buckets =
     (let rows = customer_ltv_rows d
      in case map snd rows of
           [] \<Rightarrow> Inr []
         | v # vs \<Rightarrow>
             let min_ltv = foldl min v vs; max_ltv = foldl max v vs
             in if min_ltv < max_ltv \<and> buckets = 0 then Inl ZeroDivisionError
                else
                  let width = (if min_ltv < max_ltv
                               then fdiv (fsub max_ltv min_ltv) (fl (of_int buckets))
                               else 1)
                  in Inr (map (ltv_segment_at rows buckets min_ltv width) [0..<nat buckets]))"

subsection \<open>Journey heatmap\<close>

text \<open>
  A \<^verbatim>\<open>datetime\<close> of the library, and its \<^verbatim>\<open>weekday()\<close> as the library computes it,
  from the day's ordinal in the proleptic Gregorian calendar, Monday being 0.
\<close>

record datetime =
  dt_year :: nat
  dt_month :: nat
  dt_day :: nat
  dt_hour :: nat
  dt_minute :: nat
  dt_second :: nat
  dt_microsecond :: nat

fun parse_digits_acc :: "nat \<Rightarrow> string \<Rightarrow> nat option" where
  "parse_digits_acc acc [] = Some acc"
| "parse_digits_acc acc (c # cs) =
     (case digit_val c of None \<Rightarrow> None | Some v \<Rightarrow> parse_digits_acc (acc * 10 + v) cs)"

definition parse_digits :: "string \<Rightarrow> nat option" where
  "parse_digits s = (if s = [] then None else parse_digits_acc 0 s)"

definition is_leap :: "nat \<Rightarrow> bool" where
  "is_leap y \<longleftrightarrow> y mod 4 = 0 \<and> (y mod 100 \<noteq> 0 \<or> y mod 400 = 0)"

definition days_in_month :: "nat \<Rightarrow> nat \<Rightarrow> nat" where
  "days_in_month y m =
     (if m = 2 then (if is_leap y then 29 else 28)
      else if m = 4 \<or> m = 6 \<or> m = 9 \<or> m = 11 then 30 else 31)"

definition days_before_year :: "nat \<Rightarrow> nat" where
  "days_before_year y =
     (y - 1) * 365 + (y - 1) div 4 + (y - 1) div 400 - (y - 1) div 100"

definition days_before_month :: "nat \<Rightarrow> nat \<Rightarrow> nat" where
  "days_before_month y m = sum_list (map (days_in_month y) [1..<m])"

definition toordinal :: "datetime \<Rightarrow> nat" where
  "toordinal dt =
     days_before_year (dt_year dt) + days_before_month (dt_year dt) (dt_month dt) + dt_day dt"

definition weekday :: "datetime \<Rightarrow> nat" where
  "weekday dt = (toordinal dt + 6) mod 7"

text \<open>
  The timestamps that the program writes are those of \<^verbatim>\<open>isoformat()\<close>:
  \<open>YYYY-MM-DDTHH:MM:SS\<close>, followed by a point and six digits of microseconds unless these
  are zero. \<open>parse_isoformat\<close> reads these two spellings, every field checked for its range,
  and nothing else. The library's \<^verbatim>\<open>datetime.fromisoformat\<close> reads them too, and more
  (a date alone, a time without seconds, an offset, and further spellings from one version
  of the library to the next): it is an argument of the functions below, and
  \<open>parse_isoformat\<close> is one parser to put there.
\<close>

definition parse_isoformat :: "string \<Rightarrow> datetime option" where
  "parse_isoformat s =
     (if (length s = 19 \<or> (length s = 26 \<and> s ! 19 = CHR ''.''))
         \<and> s ! 4 = CHR ''-'' \<and> s ! 7 = CHR ''-'' \<and> s ! 13 = CHR '':'' \<and> s ! 16 = CHR '':''
      then
        (case (parse_digits (take 4 s), parse_digits (take 2 (drop 5 s)),
               parse_digits (take 2 (drop 8 s)), parse_digits (take 2 (drop 11 s)),
               parse_digits (take 2 (drop 14 s)), parse_digits (take 2 (drop 17 s)),
               if length s = 19 then Some 0 else parse_digits (drop 20 s)) of
           (Some y, Some m, Some dd, Some h, Some mi, Some sec, Some us) \<Rightarrow>
             if 1 \<le> y \<and> 1 \<le> m \<and> m \<le> 12 \<and> 1 \<le> dd \<and> dd \<le> days_in_month y m
                \<and> h < 24 \<and> mi < 60 \<and> sec < 60
             then Some \<lparr>dt_year = y, dt_month = m, dt_day = dd, dt_hour = h,
                         dt_minute = mi, dt_second = sec, dt_microsecond = us\<rparr>
             else None
         | _ \<Rightarrow> None)
      else None)"

text \<open>
  \<^verbatim>\<open>datetime.timedelta(hours=hours)\<close>: a span of more than 999999999 days, either way, is
  the library's \<^verbatim>\<open>OverflowError\<close>. The span is kept in hours.
\<close>

definition timedelta_hours :: "int \<Rightarrow> error + int" where
  "timedelta_hours hours =
     (if hours div 24 < - 999999999 \<or> 999999999 < hours div 24 then Inl OverflowError
      else Inr hours)"

text \<open>
  \<^verbatim>\<open>matrix[dt.weekday()][dt.hour] += 1\<close>. An index out of range would raise
  \<^verbatim>\<open>IndexError\<close>, which the loop does not catch.
\<close>

definition bump :: "nat list list \<Rightarrow> nat \<Rightarrow> nat \<Rightarrow> error + nat list list" where
  "bump m day h =
     (if day < length m \<and> h < length (m ! day)
      then Inr (m[day := (m ! day)[h := m ! day ! h + 1]])
      else Inl IndexError)"

text \<open>
  The loop over the selected rows. \<open>fromisoformat\<close> is the library's parser, \<open>None\<close> where
  it raises \<^verbatim>\<open>ValueError\<close>, which the loop catches.
\<close>

fun heatmap_rows ::
  "(string \<Rightarrow> datetime option) \<Rightarrow> nat list list \<Rightarrow> string list \<Rightarrow> error + nat list list" where
  "heatmap_rows fromisoformat m [] = Inr m"
| "heatmap_rows fromisoformat m (ts # rest) =
     (case fromisoformat ts of
        None \<Rightarrow> heatmap_rows fromisoformat m rest
      | Some dt \<Rightarrow>
          (case bump m (weekday dt) (dt_hour dt) of
             Inl e \<Rightarrow> Inl e
           | Inr m' \<Rightarrow> heatmap_rows fromisoformat m' rest))"

record heatmap =
  matrix :: "nat list list"
  day_labels :: "string list"
  hour_labels :: "string list"
  total_touchpoints :: nat

definition pad2 :: "nat \<Rightarrow> string" where
  "pad2 h = (if h < 10 then ''0'' @ str_nat h else str_nat h)"

text \<open>
  \<^verbatim>\<open>get_journey_heatmap\<close>. The cutoff is
  \<^verbatim>\<open>(datetime.utcnow() - timedelta(hours=hours)).isoformat()\<close>: after the span is built,
  \<open>utcnow_minus\<close> stands for the clock and the library's subtraction and formatting, and
  gives the cutoff text, or \<^verbatim>\<open>OverflowError\<close> when the date falls outside the years the
  library has. Either error leaves the method before it reads the table.
\<close>

definition get_journey_heatmap ::
  "(string \<Rightarrow> datetime option) \<Rightarrow> (int \<Rightarrow> error + string) \<Rightarrow> db \<Rightarrow> int \<Rightarrow> error + heatmap" where
  "get_journey_heatmap fromisoformat utcnow_minus d hours =
     (case timedelta_hours hours of
        Inl e \<Rightarrow> Inl e
      | Inr delta \<Rightarrow>
          (case utcnow_minus delta of
             Inl e \<Rightarrow> Inl e
           | Inr cutoff \<Rightarrow>
               (case heatmap_rows fromisoformat (replicate 7 (replicate 24 0))
                       [tp_timestamp tp. tp \<leftarrow> touchpoints d, cutoff \<le> tp_timestamp tp] of
                  Inl e \<Rightarrow> Inl e
                | Inr m \<Rightarrow>
                    Inr \<lparr>matrix = m,
                         day_labels =
                           [''Mon'', ''Tue'', ''Wed'', ''Thu'', ''Fri'', ''Sat'', ''Sun''],
                         hour_labels = map (\<lambda>h. pad2 h @ '':00'') [0..<24],
                         total_touchpoints = sum_list (map sum_list m)\<rparr>)))"

text \<open>
  The cell in which a timestamp is counted, if it parses; and the shape of the matrix.
\<close>

definition heatmap_cell :: "(string \<Rightarrow> datetime option) \<Rightarrow> string \<Rightarrow> (nat \<times> nat) option" where
  "heatmap_cell fromisoformat ts =
     map_option (\<lambda>dt. (weekday dt, dt_hour dt)) (fromisoformat ts)"

definition matrix_7x24 :: "nat list list \<Rightarrow> bool" where
  "matrix_7x24 m \<longleftrightarrow> length m = 7 \<and> (\<forall>row \<in> set m. length row = 24)"

subsection \<open>Sequences of operations\<close>





subsection \<open>Example storage states\<close>

text \<open>
  Calls in sequence, for building a state by the program's own operations: the next call
  runs on the state the last one returned, and an error ends the sequence.
\<close>

definition and_then ::
  "error + (db \<times> 'a) \<Rightarrow> (db \<Rightarrow> error + (db \<times> 'b)) \<Rightarrow> error + (db \<times> 'b)" where
  "and_then r f = (case r of Inl e \<Rightarrow> Inl e | Inr (d, _) \<Rightarrow> f d)"


definition mk_stage :: "string \<Rightarrow> string \<Rightarrow> int \<Rightarrow> string \<Rightarrow> funnel_stage" where
  "mk_stage i n p ev =
     \<lparr>fs_id = i, fs_name = n, fs_position = p, fs_description = '''',
      fs_entry_event = ev, fs_exit_event = ''''\<rparr>"

definition mk_session :: "string \<Rightarrow> string \<Rightarrow> string \<Rightarrow> bool \<Rightarrow> rat \<Rightarrow> customer_session" where
  "mk_session i c ch conv v =
     \<lparr>s_id = i, s_customer_id = c, s_start_time = ''2026-11-02T09:00:00'',
      s_end_time = None, s_channel = ch, s_device = ''desktop'',
      s_converted = conv, s_conversion_value = v\<rparr>"

definition mk_touchpoint :: "string \<Rightarrow> string \<Rightarrow> string \<Rightarrow> string \<Rightarrow> touchpoint" where
  "mk_touchpoint i s ev ts =
     \<lparr>tp_id = i, tp_session_id = s, tp_customer_id = ''cust'', tp_channel = ''web'',
      tp_page = ''/'', tp_event_type = ev, tp_timestamp = ts, tp_duration_ms = 0,
      tp_metadata = ''{}''\<rparr>"

text \<open>
  Three stages in funnel order and one open session that saw the first and the third.
\<close>

definition db_skipped_stage :: db where
  "db_skipped_stage =
     init_db\<lparr>funnel_stages :=
               [mk_stage ''st-1'' ''Awareness'' 1 ''page_view'',
                mk_stage ''st-2'' ''Intent'' 2 ''add_to_cart'',
                mk_stage ''st-3'' ''Purchase'' 3 ''checkout_start''],
             sessions := [mk_session ''s1'' ''c1'' ''email'' False 0],
             touchpoints :=
               [mk_touchpoint ''t1'' ''s1'' ''checkout_start'' ''2026-11-02T09:00:01'',
                mk_touchpoint ''t2'' ''s1'' ''page_view'' ''2026-11-02T09:00:02'']\<rparr>"

text \<open>
  Two stages of equal position, and two sessions that triggered both, in opposite orders.
\<close>

definition db_tied_positions :: db where
  "db_tied_positions =
     init_db\<lparr>funnel_stages :=
               [mk_stage ''st-a'' ''Browse'' 1 ''page_view'',
                mk_stage ''st-b'' ''Search'' 1 ''search''],
             sessions := [mk_session ''s1'' ''c1'' ''email'' False 0,
                          mk_session ''s2'' ''c2'' ''email'' False 0],
             touchpoints :=
               [mk_touchpoint ''t1'' ''s1'' ''page_view'' ''2026-11-02T09:00:01'',
                mk_touchpoint ''t2'' ''s1'' ''search'' ''2026-11-02T09:00:02'',
                mk_touchpoint ''t3'' ''s2'' ''search'' ''2026-11-02T09:00:03'',
                mk_touchpoint ''t4'' ''s2'' ''page_view'' ''2026-11-02T09:00:04'']\<rparr>"

text \<open>
  Two stages; one session entered the first and both sessions entered the second. No session
  converted.
\<close>

definition db_late_entry :: db where
  "db_late_entry =
     init_db\<lparr>funnel_stages :=
               [mk_stage ''st-1'' ''Awareness'' 1 ''page_view'',
                mk_stage ''st-2'' ''Interest'' 2 ''search''],
             sessions := [mk_session ''s1'' ''c1'' ''email'' False 0,
                          mk_session ''s2'' ''c2'' ''email'' False 0],
             touchpoints :=
               [mk_touchpoint ''t1'' ''s1'' ''page_view'' ''2026-11-02T09:00:01'',
                mk_touchpoint ''t2'' ''s1'' ''search'' ''2026-11-02T09:00:02'',
                mk_touchpoint ''t3'' ''s2'' ''search'' ''2026-11-02T09:00:03'']\<rparr>"

text \<open>
  One stage and one session; two dropoff events at the stage, the second for a session id
  that no session row has.
\<close>

definition db_orphan_dropoff :: db where
  "db_orphan_dropoff =
     init_db\<lparr>funnel_stages := [mk_stage ''st-1'' ''Awareness'' 1 ''page_view''],
             sessions := [mk_session ''s1'' ''c1'' ''email'' False 0],
             dropoff_events :=
               [\<lparr>de_id = ''x1'', de_session_id = ''s1'', de_stage_id = ''st-1'',
                 de_stage_name = ''Awareness'', de_timestamp = ''2026-11-02T10:00:00'',
                 de_reason = ''stage_not_reached''\<rparr>,
                \<lparr>de_id = ''x2'', de_session_id = ''no-such-session'', de_stage_id = ''st-1'',
                 de_stage_name = ''Awareness'', de_timestamp = ''2026-11-02T23:30:00'',
                 de_reason = ''stage_not_reached''\<rparr>]\<rparr>"

text \<open>
  Four touchpoints: one a month old, one of a Monday morning, one whose timestamp is no
  timestamp, one of the Sunday night after.
\<close>

definition db_heatmap :: db where
  "db_heatmap =
     init_db\<lparr>touchpoints :=
       [mk_touchpoint ''t0'' ''s1'' ''page_view'' ''2026-10-01T08:00:00'',
        mk_touchpoint ''t1'' ''s1'' ''page_view'' ''2026-11-02T09:00:00'',
        mk_touchpoint ''t2'' ''s1'' ''search'' ''yesterday'',
        mk_touchpoint ''t3'' ''s2'' ''search'' ''2026-11-08T23:59:59.123456'']\<rparr>"

text \<open>
  Two customers with one converted session each, worth 49.99 (the float nearest to it) and
  100.0.
\<close>

definition db_ltv_gap :: db where
  "db_ltv_gap =
     init_db\<lparr>sessions :=
       [mk_session ''s1'' ''c1'' ''email'' True (fl (4999 / 100)),
        mk_session ''s2'' ''c2'' ''email'' True 100]\<rparr>"



section \<open>Properties\<close>

subsection \<open>Rounding\<close>

text \<open>
  Rounding to the nearest float keeps the sign and does not cross a float: an upper bound
  that is a float itself stays an upper bound.
\<close>

lemma round_half_even_le:
  assumes "x \<le> of_int n"
  shows "round_half_even x \<le> n"
proof -
  have f: "\<lfloor>x\<rfloor> \<le> n"
    using assms by (simp add: floor_le_iff)
  show ?thesis
  proof (cases "\<lfloor>x\<rfloor> = n")
    case True
    then have "x - of_int \<lfloor>x\<rfloor> \<le> 0"
      using assms by simp
    then show ?thesis
      using True by (simp add: round_half_even_def Let_def)
  next
    case False
    then have "\<lfloor>x\<rfloor> + 1 \<le> n"
      using f by simp
    then show ?thesis
      by (simp add: round_half_even_def Let_def)
  qed
qed

lemma round_half_even_ge:
  assumes "of_int n \<le> x"
  shows "n \<le> round_half_even x"
proof -
  have "n \<le> \<lfloor>x\<rfloor>"
    using assms by (simp add: le_floor_iff)
  then show ?thesis
    by (simp add: round_half_even_def Let_def)
qed

lemma round_half_even_of_int [simp]: "round_half_even (of_int n) = n"
  by (simp add: round_half_even_def)

lemma powi_neg: "0 \<le> k \<Longrightarrow> (2::rat) powi (- k) = 1 / 2 ^ nat k"
  by (simp add: power_int_minus_divide power_int_nonneg_exp)

lemma expo_bounds:
  assumes "x \<noteq> 0"
  shows "2 powi expo x \<le> \<bar>x\<bar>" and "\<bar>x\<bar> < 2 powi (expo x + 1)"
proof -
  let ?a = "\<bar>x\<bar>"
  have pos: "0 < ?a"
    using assms by simp
  have "2 powi expo x \<le> ?a \<and> ?a < 2 powi (expo x + 1)"
  proof (cases "1 \<le> ?a")
    case True
    let ?n = "\<lfloor>?a\<rfloor>"
    have n: "0 < ?n"
      using True by simp
    have e: "expo x = bitlen ?n - 1"
      using True by (simp add: expo_def)
    have b1: "1 \<le> bitlen ?n"
      using n by (simp add: bitlen_alt_def)
    from bitlen_bounds [OF n]
    have lo: "(2::int) ^ nat (bitlen ?n - 1) \<le> ?n" and hi: "?n < 2 ^ nat (bitlen ?n)"
      by simp_all
    have "(of_int (2 ^ nat (bitlen ?n - 1)) :: rat) \<le> of_int ?n"
      using lo by (simp only: of_int_le_iff)
    also have "\<dots> \<le> ?a"
      by simp
    finally have l: "2 powi expo x \<le> ?a"
      using b1 by (simp add: e power_int_nonneg_exp)
    have "?n + 1 \<le> 2 ^ nat (bitlen ?n)"
      using hi by simp
    then have "(of_int (?n + 1) :: rat) \<le> of_int (2 ^ nat (bitlen ?n))"
      by (simp only: of_int_le_iff)
    moreover have "?a < of_int (?n + 1)"
      by linarith
    ultimately have "?a < of_int (2 ^ nat (bitlen ?n))"
      by linarith
    then have "?a < 2 powi (expo x + 1)"
      using b1 by (simp add: e power_int_nonneg_exp)
    with l show ?thesis by simp
  next
    case False
    let ?y = "1 / ?a"
    let ?c = "\<lceil>?y\<rceil>"
    have y: "1 < ?y"
      using False pos by (simp add: field_simps)
    have c: "0 < ?c - 1"
      using y by (simp add: less_ceiling_iff)
    let ?b = "bitlen (?c - 1)"
    have e: "expo x = - ?b"
      using False by (simp add: expo_def)
    have b1: "1 \<le> ?b"
      using c by (simp add: bitlen_alt_def)
    from bitlen_bounds [OF c]
    have lo: "(2::int) ^ nat (?b - 1) \<le> ?c - 1" and hi: "?c - 1 < 2 ^ nat ?b"
      by simp_all
    have "(of_int (2 ^ nat (?b - 1)) :: rat) \<le> of_int (?c - 1)"
      using lo by (simp only: of_int_le_iff)
    moreover have "of_int (?c - 1) < ?y"
      by linarith
    moreover have "(of_int (2 ^ nat (?b - 1)) :: rat) = 2 ^ nat (?b - 1)"
      by simp
    ultimately have "(2::rat) ^ nat (?b - 1) < ?y"
      by linarith
    then have "?a * 2 ^ nat (?b - 1) < 1"
      using pos by (simp add: field_simps)
    then have "?a < 1 / 2 ^ nat (?b - 1)"
      by (simp add: field_simps)
    also have "\<dots> = 2 powi (- (?b - 1))"
      using b1 by (intro powi_neg [symmetric]) simp
    finally have u: "?a < 2 powi (expo x + 1)"
      by (simp add: e)
    have "?c \<le> 2 ^ nat ?b"
      using hi by simp
    then have "(of_int ?c :: rat) \<le> of_int (2 ^ nat ?b)"
      by (simp only: of_int_le_iff)
    moreover have "?y \<le> of_int ?c"
      by linarith
    moreover have "(of_int (2 ^ nat ?b) :: rat) = 2 ^ nat ?b"
      by simp
    ultimately have "?y \<le> 2 ^ nat ?b"
      by linarith
    then have "1 \<le> ?a * 2 ^ nat ?b"
      using pos by (simp add: field_simps)
    then have "1 / 2 ^ nat ?b \<le> ?a"
      by (simp add: field_simps)
    moreover have "1 / 2 ^ nat ?b = (2::rat) powi (- ?b)"
      using b1 by (intro powi_neg [symmetric]) simp
    ultimately have "2 powi expo x \<le> ?a"
      by (simp add: e)
    with u show ?thesis by simp
  qed
  then show "2 powi expo x \<le> \<bar>x\<bar>" and "\<bar>x\<bar> < 2 powi (expo x + 1)"
    by simp_all
qed


lemma powi_53: "(2::rat) powi (k + 1) = 9007199254740992 * 2 powi (k - 52)"
  using power_int_add [of "2::rat" 53 "k - 52"] by (simp add: add.commute)

lemma fl_nonneg:
  assumes "0 \<le> x"
  shows "0 \<le> fl x"
proof (cases "x = 0")
  case True
  then show ?thesis by (simp add: fl_def)
next
  case False
  let ?u = "(2::rat) powi (expo x - 52)"
  have u: "0 < ?u"
    by (simp add: zero_less_power_int)
  have "of_int 0 \<le> x / ?u"
    using assms u by simp
  then have "0 \<le> round_half_even (x / ?u)"
    by (rule round_half_even_ge)
  then show ?thesis
    using False u by (simp add: fl_def Let_def)
qed

lemma fl_nonpos:
  assumes "x \<le> 0"
  shows "fl x \<le> 0"
proof (cases "x = 0")
  case True
  then show ?thesis by (simp add: fl_def)
next
  case False
  let ?u = "(2::rat) powi (expo x - 52)"
  have u: "0 < ?u"
    by (simp add: zero_less_power_int)
  have "x / ?u \<le> of_int 0"
    using assms u by (simp add: divide_le_0_iff)
  then have "round_half_even (x / ?u) \<le> 0"
    by (rule round_half_even_le)
  then show ?thesis
    using False u by (simp add: fl_def Let_def mult_le_0_iff)
qed

lemma fl_le_float:
  assumes x: "0 < x" "x \<le> c" and c: "fl c = c"
  shows "fl x \<le> c"
proof -
  let ?ux = "(2::rat) powi (expo x - 52)"
  let ?uc = "(2::rat) powi (expo c - 52)"
  have ux: "0 < ?ux" and uc: "0 < ?uc"
    by (simp_all add: zero_less_power_int)
  have cpos: "0 < c"
    using x by simp
  have flx: "fl x = of_int (round_half_even (x / ?ux)) * ?ux"
    using x by (simp add: fl_def Let_def)
  have flc: "c = of_int (round_half_even (c / ?uc)) * ?uc"
    using c cpos by (simp add: fl_def Let_def)
  from expo_bounds [of x] x
  have bx: "2 powi expo x \<le> x" "x < 2 powi (expo x + 1)"
    by simp_all
  from expo_bounds [of c] cpos
  have bc: "2 powi expo c \<le> c" "c < 2 powi (expo c + 1)"
    by simp_all
  have "(2::rat) powi expo x < 2 powi (expo c + 1)"
    using bx(1) x(2) bc(2) by linarith
  then have le: "expo x \<le> expo c"
    using power_int_increasing [of "expo c + 1" "expo x" "2::rat"] by (cases "expo x \<le> expo c") simp_all
  show ?thesis
  proof (cases "expo x = expo c")
    case True
    have "x / ?ux \<le> c / ?ux"
      using x ux by (simp add: divide_right_mono)
    also have "c / ?ux = of_int (round_half_even (c / ?uc))"
      using flc uc True by (simp add: field_simps)
    finally have "round_half_even (x / ?ux) \<le> round_half_even (c / ?uc)"
      by (rule round_half_even_le)
    then have "of_int (round_half_even (x / ?ux)) * ?ux
        \<le> of_int (round_half_even (c / ?uc)) * ?ux"
      using ux by (simp add: mult_right_mono)
    then show ?thesis
      using flx flc True by simp
  next
    case False
    then have lt: "expo x + 1 \<le> expo c"
      using le by simp
    have "x / ?ux < 2 powi (expo x + 1) / ?ux"
      using bx(2) ux by (simp add: divide_strict_right_mono)
    also have "2 powi (expo x + 1) / ?ux = of_int (2 ^ 53)"
      by (simp add: powi_53)
    finally have "x / ?ux \<le> of_int (2 ^ 53)"
      by (rule less_imp_le)
    then have "round_half_even (x / ?ux) \<le> 2 ^ 53"
      by (rule round_half_even_le)
    then have "(of_int (round_half_even (x / ?ux)) :: rat) \<le> of_int (2 ^ 53)"
      by (simp only: of_int_le_iff)
    then have "fl x \<le> of_int (2 ^ 53) * ?ux"
      using flx ux by (simp add: mult_right_mono)
    also have "of_int (2 ^ 53) * ?ux = 2 powi (expo x + 1)"
      by (simp add: powi_53)
    also have "\<dots> \<le> 2 powi expo c"
      using lt by (simp add: power_int_increasing)
    also have "\<dots> \<le> c"
      by (rule bc(1))
    finally show ?thesis .
  qed
qed

subsection \<open>Sorting and selecting\<close>

lemma set_select_distinct: "set (select_distinct xs) = set xs"
  by (simp add: select_distinct_def)

lemma distinct_select_distinct: "distinct (select_distinct xs)"
  by (simp add: select_distinct_def)



lemma sorted_key_unique:
  assumes "sorted (map f xs)" "sorted (map f ys)" "distinct xs" "distinct ys"
    "set xs = set ys" "inj_on f (set xs)"
  shows "xs = ys"
proof -
  have "distinct (map f xs)" "distinct (map f ys)"
    using assms by (simp_all add: distinct_map)
  moreover have "set (map f xs) = set (map f ys)"
    using assms by simp
  ultimately have "map f xs = map f ys"
    using assms(1,2) by (intro sorted_distinct_set_unique)
  then show ?thesis
    using assms(5,6) by (simp add: inj_on_map_eq_map)
qed

lemma find_first_by_position:
  assumes "find P (order_by_position xs) = Some st"
  shows "st \<in> set xs \<and> P st
    \<and> (\<forall>st' \<in> set xs. fs_position st' < fs_position st \<longrightarrow> \<not> P st')"
proof -
  let ?ys = "order_by_position xs"
  obtain i where i: "i < length ?ys" "P (?ys ! i)" "st = ?ys ! i" "\<forall>j<i. \<not> P (?ys ! j)"
    using assms unfolding find_Some_iff by blast
  have srt: "sorted (map fs_position ?ys)"
    by (simp add: order_by_position_def)
  have mem: "st \<in> set xs"
    using i(1,3) by (metis nth_mem order_by_position_def set_sort)
  have "\<not> P st'" if "st' \<in> set xs" "fs_position st' < fs_position st" for st'
  proof -
    from that(1) obtain j where j: "j < length ?ys" "?ys ! j = st'"
      by (metis in_set_conv_nth order_by_position_def set_sort)
    have "j < i"
    proof (rule ccontr)
      assume "\<not> j < i"
      then have "i \<le> j" by simp
      then have "map fs_position ?ys ! i \<le> map fs_position ?ys ! j"
        using srt j(1) by (intro sorted_nth_mono) simp_all
      then show False
        using that(2) i(1,3) j by simp
    qed
    then show ?thesis
      using i(4) j(2) by blast
  qed
  then show ?thesis
    using mem i(2,3) by blast
qed

lemma find_None_by_position:
  "find P (order_by_position xs) = None \<longleftrightarrow> (\<forall>st \<in> set xs. \<not> P st)"
  by (auto simp: find_None_iff order_by_position_def)

subsection \<open>Recording a touchpoint\<close>




subsection \<open>Closing a session\<close>

lemma set_session_stage_rows:
  "set (session_stage_rows d sid) = stage_row ` matched_stages d sid"
  by (auto simp: session_stage_rows_def set_select_distinct stage_row_def matched_stages_def
      image_iff)

lemma distinct_session_stage_rows: "distinct (session_stage_rows d sid)"
  by (simp add: session_stage_rows_def distinct_select_distinct)

lemma sorted_session_stage_rows:
  "sorted (map (\<lambda>(i, n, p). p) (session_stage_rows d sid))"
  by (simp add: session_stage_rows_def)

lemma session_stage_rows_sessions_update [simp]:
  "session_stage_rows (d\<lparr>sessions := ss\<rparr>) sid = session_stage_rows d sid"
  by (simp add: session_stage_rows_def cong: if_cong)

lemma end_session_unfold:
  "end_session d path_id drop_id now sid conv val =
     (let sv = map (\<lambda>(i, n, p). n) (session_stage_rows d sid);
          path = \<lparr>cp_id = path_id, cp_session_id = sid, cp_stages_visited = sv,
                  cp_path_signature = path_signature_of sv, cp_converted = conv,
                  cp_created_at = now\<rparr>;
          d1 = d\<lparr>sessions :=
                  map (\<lambda>s. if s_id s = sid
                            then s\<lparr>s_end_time := Some now, s_converted := conv,
                                   s_conversion_value := val\<rparr>
                            else s) (sessions d)\<rparr>;
          d2 = d1\<lparr>conversion_paths := conversion_paths d @ [path]\<rparr>
      in if path_id \<in> set (map cp_id (conversion_paths d)) then Inl IntegrityError
         else if conv then Inr (d2, path)
         else (case find (\<lambda>st. fs_name st \<notin> set sv) (order_by_position (funnel_stages d)) of
                 None \<Rightarrow> Inr (d2, path)
               | Some st \<Rightarrow>
                   if drop_id \<in> set (map de_id (dropoff_events d)) then Inl IntegrityError
                   else Inr (d2\<lparr>dropoff_events := dropoff_events d @
                                  [\<lparr>de_id = drop_id, de_session_id = sid,
                                    de_stage_id = fs_id st, de_stage_name = fs_name st,
                                    de_timestamp = now,
                                    de_reason = ''stage_not_reached''\<rparr>]\<rparr>,
                             path)))"
  by (simp add: end_session_def Let_def split: option.splits)

text \<open>
  Claim C1. A call of \<^verbatim>\<open>end_session\<close> whose drawn identifiers are new returns, and it adds
  exactly one conversion path, for the session named. It adds at most one dropoff event:
  none when \<open>converted\<close> is true, none when the name of every registered stage is among the
  stages visited, and otherwise exactly one, for the first stage in ascending position order
  whose name is not among the stages visited (every stage of smaller position was visited),
  with the reason \<open>stage_not_reached\<close>.
\<close>

theorem end_session_one_path_one_dropoff:
  assumes "path_id \<notin> set (map cp_id (conversion_paths d))"
    and "drop_id \<notin> set (map de_id (dropoff_events d))"
  shows "\<exists>d' p new.
      end_session d path_id drop_id now session_id converted conversion_value = Inr (d', p)
      \<and> conversion_paths d' = conversion_paths d @ [p]
      \<and> cp_session_id p = session_id
      \<and> dropoff_events d' = dropoff_events d @ new
      \<and> length new \<le> 1
      \<and> (converted \<longrightarrow> new = [])
      \<and> ((\<forall>st \<in> set (funnel_stages d). fs_name st \<in> set (cp_stages_visited p))
             \<longrightarrow> new = [])
      \<and> (\<not> converted
           \<and> (\<exists>st \<in> set (funnel_stages d). fs_name st \<notin> set (cp_stages_visited p))
           \<longrightarrow>
           (\<exists>st \<in> set (funnel_stages d).
              find (\<lambda>st. fs_name st \<notin> set (cp_stages_visited p))
                (order_by_position (funnel_stages d)) = Some st
              \<and> fs_name st \<notin> set (cp_stages_visited p)
              \<and> (\<forall>st' \<in> set (funnel_stages d).
                     fs_position st' < fs_position st
                     \<longrightarrow> fs_name st' \<in> set (cp_stages_visited p))
              \<and> new = [\<lparr>de_id = drop_id, de_session_id = session_id,
                          de_stage_id = fs_id st, de_stage_name = fs_name st,
                          de_timestamp = now, de_reason = ''stage_not_reached''\<rparr>]))"
proof -
  define sv where "sv = map (\<lambda>(i, n, p). n) (session_stage_rows d session_id)"
  define P where "P = (\<lambda>st::funnel_stage. fs_name st \<notin> set sv)"
  note unf = end_session_unfold [of d path_id drop_id now session_id converted conversion_value,
      folded sv_def]
  show ?thesis
  proof (cases converted)
    case True
    then show ?thesis
      using assms unf by (simp add: Let_def)
  next
    case False
    show ?thesis
    proof (cases "find P (order_by_position (funnel_stages d))")
      case None
      then have "\<forall>st \<in> set (funnel_stages d). fs_name st \<in> set sv"
        by (simp add: find_None_by_position P_def)
      then show ?thesis
        using assms unf False None by (simp add: Let_def P_def)
    next
      case (Some st)
      from find_first_by_position [OF Some]
      have st: "st \<in> set (funnel_stages d)" "fs_name st \<notin> set sv"
        "\<forall>st' \<in> set (funnel_stages d). fs_position st' < fs_position st
           \<longrightarrow> fs_name st' \<in> set sv"
        by (auto simp: P_def)
      show ?thesis
        using assms unf False Some st by (auto simp: Let_def P_def)
    qed
  qed
qed

text \<open>
  At a concrete state: the session saw the first and the third of three stages and closes
  without converting; the dropoff is recorded at the second.
\<close>

theorem end_session_witness:
  "''p1'' \<notin> set (map cp_id (conversion_paths db_skipped_stage))
   \<and> ''x1'' \<notin> set (map de_id (dropoff_events db_skipped_stage))
   \<and> (\<exists>d' p.
        end_session db_skipped_stage ''p1'' ''x1'' ''2026-11-02T10:00:00'' ''s1'' False 0
          = Inr (d', p)
        \<and> length (conversion_paths d') = 1
        \<and> cp_stages_visited p = [''Awareness'', ''Purchase'']
        \<and> dropoff_events d' =
            [\<lparr>de_id = ''x1'', de_session_id = ''s1'', de_stage_id = ''st-2'',
              de_stage_name = ''Intent'', de_timestamp = ''2026-11-02T10:00:00'',
              de_reason = ''stage_not_reached''\<rparr>])"
proof -
  have f1: "''p1'' \<notin> set (map cp_id (conversion_paths db_skipped_stage))"
    by (simp add: db_skipped_stage_def init_db_def)
  have f2: "''x1'' \<notin> set (map de_id (dropoff_events db_skipped_stage))"
    by (simp add: db_skipped_stage_def init_db_def)
  have stages: "funnel_stages db_skipped_stage =
      [mk_stage ''st-1'' ''Awareness'' 1 ''page_view'',
       mk_stage ''st-2'' ''Intent'' 2 ''add_to_cart'',
       mk_stage ''st-3'' ''Purchase'' 3 ''checkout_start'']"
    and empties: "conversion_paths db_skipped_stage = []" "dropoff_events db_skipped_stage = []"
    by (simp_all add: db_skipped_stage_def init_db_def)
  have sv: "session_stage_rows db_skipped_stage ''s1''
      = [(''st-1'', ''Awareness'', 1), (''st-3'', ''Purchase'', 3)]"
    by (simp add: session_stage_rows_def db_skipped_stage_def init_db_def mk_stage_def
        mk_touchpoint_def select_distinct_def)
  obtain d' p new where r:
    "end_session db_skipped_stage ''p1'' ''x1'' ''2026-11-02T10:00:00'' ''s1'' False 0
       = Inr (d', p)"
    "conversion_paths d' = conversion_paths db_skipped_stage @ [p]"
    "dropoff_events d' = dropoff_events db_skipped_stage @ new"
    using end_session_one_path_one_dropoff [OF f1 f2, of "''2026-11-02T10:00:00''" "''s1''"
        False 0]
    by blast
  have "cp_stages_visited p = [''Awareness'', ''Purchase'']"
    and "new = [\<lparr>de_id = ''x1'', de_session_id = ''s1'', de_stage_id = ''st-2'',
              de_stage_name = ''Intent'', de_timestamp = ''2026-11-02T10:00:00'',
              de_reason = ''stage_not_reached''\<rparr>]"
    using r
    by (auto simp: end_session_unfold sv Let_def stages empties mk_stage_def
        order_by_position_def)
  then show ?thesis
    using f1 f2 r by (auto simp: empties)
qed

lemma end_session_path:
  assumes "path_id \<notin> set (map cp_id (conversion_paths d))"
    and "drop_id \<notin> set (map de_id (dropoff_events d))"
  shows "\<exists>d'. end_session d path_id drop_id now sid conv val =
      Inr (d', \<lparr>cp_id = path_id, cp_session_id = sid,
                cp_stages_visited = map (\<lambda>(i, n, p). n) (session_stage_rows d sid),
                cp_path_signature =
                  path_signature_of (map (\<lambda>(i, n, p). n) (session_stage_rows d sid)),
                cp_converted = conv, cp_created_at = now\<rparr>)"
  using assms by (simp add: end_session_unfold Let_def split: option.splits)

lemma matched_stages_touchpoints_perm:
  assumes "set tps = set (touchpoints d)"
  shows "matched_stages (d\<lparr>touchpoints := tps\<rparr>) sid = matched_stages d sid"
  using assms by (simp add: matched_stages_def)

lemma session_stage_rows_perm:
  assumes "set tps = set (touchpoints d)"
    and "inj_on fs_position (matched_stages d sid)"
  shows "session_stage_rows (d\<lparr>touchpoints := tps\<rparr>) sid = session_stage_rows d sid"
proof (rule sorted_key_unique [where f = "\<lambda>(i, n, p). p"])
  show "inj_on (\<lambda>(i, n, p). p) (set (session_stage_rows (d\<lparr>touchpoints := tps\<rparr>) sid))"
    using assms
    by (auto simp: set_session_stage_rows matched_stages_touchpoints_perm inj_on_def
        stage_row_def)
  show "set (session_stage_rows (d\<lparr>touchpoints := tps\<rparr>) sid) = set (session_stage_rows d sid)"
    using assms(1) by (simp add: set_session_stage_rows matched_stages_touchpoints_perm)
qed (simp_all add: sorted_session_stage_rows distinct_session_stage_rows)

text \<open>
  Claim C2, as the code has it. The path signature is \<open>direct\<close> when no registered stage
  has the event type of a touchpoint of the session as its entry event. Otherwise it is the
  names of the stages that have, each stage once, in ascending position order, joined by the
  arrow separator. It does not depend on the order in which the touchpoints were recorded
  when the matched stages have pairwise different positions.
\<close>

theorem path_signature_by_position:
  assumes "path_id \<notin> set (map cp_id (conversion_paths d))"
    and "drop_id \<notin> set (map de_id (dropoff_events d))"
  shows "\<exists>d' p.
      end_session d path_id drop_id now session_id converted conversion_value = Inr (d', p)
      \<and> set (session_stage_rows d session_id) = stage_row ` matched_stages d session_id
      \<and> distinct (session_stage_rows d session_id)
      \<and> sorted (map (\<lambda>(i, n, p). p) (session_stage_rows d session_id))
      \<and> cp_stages_visited p = map (\<lambda>(i, n, p). n) (session_stage_rows d session_id)
      \<and> cp_path_signature p =
          (if matched_stages d session_id = {} then ''direct''
           else join arrow_sep (cp_stages_visited p))
      \<and> (\<forall>tps. mset tps = mset (touchpoints d)
                 \<and> inj_on fs_position (matched_stages d session_id)
            \<longrightarrow> (\<exists>d2 p2.
                   end_session (d\<lparr>touchpoints := tps\<rparr>) path_id drop_id now session_id
                       converted conversion_value = Inr (d2, p2)
                   \<and> cp_stages_visited p2 = cp_stages_visited p
                   \<and> cp_path_signature p2 = cp_path_signature p))"
proof -
  let ?rows = "session_stage_rows d session_id"
  let ?sv = "map (\<lambda>(i, n, p). n) ?rows"
  let ?p = "\<lparr>cp_id = path_id, cp_session_id = session_id, cp_stages_visited = ?sv,
             cp_path_signature = path_signature_of ?sv, cp_converted = converted,
             cp_created_at = now\<rparr>"
  obtain d' where run:
    "end_session d path_id drop_id now session_id converted conversion_value = Inr (d', ?p)"
    using end_session_path [OF assms] by blast
  have empty: "?sv = [] \<longleftrightarrow> matched_stages d session_id = {}"
    using set_session_stage_rows [of d session_id] by (metis image_is_empty map_is_Nil_conv set_empty)
  have sig: "cp_path_signature ?p =
      (if matched_stages d session_id = {} then ''direct'' else join arrow_sep ?sv)"
    using empty by (simp add: path_signature_of_def)
  have perm: "\<exists>d2 p2.
      end_session (d\<lparr>touchpoints := tps\<rparr>) path_id drop_id now session_id
          converted conversion_value = Inr (d2, p2)
      \<and> cp_stages_visited p2 = cp_stages_visited ?p
      \<and> cp_path_signature p2 = cp_path_signature ?p"
    if "mset tps = mset (touchpoints d)" "inj_on fs_position (matched_stages d session_id)"
    for tps
  proof -
    have "set tps = set (touchpoints d)"
      using that(1) by (rule mset_eq_setD)
    then have rows: "session_stage_rows (d\<lparr>touchpoints := tps\<rparr>) session_id = ?rows"
      using that(2) by (rule session_stage_rows_perm)
    have "path_id \<notin> set (map cp_id (conversion_paths (d\<lparr>touchpoints := tps\<rparr>)))"
      and "drop_id \<notin> set (map de_id (dropoff_events (d\<lparr>touchpoints := tps\<rparr>)))"
      using assms by simp_all
    from end_session_path [OF this, of now session_id converted conversion_value]
    show ?thesis
      unfolding rows by auto
  qed
  show ?thesis
    using run sig perm
      set_session_stage_rows [of d session_id]
      distinct_session_stage_rows [of d session_id]
      sorted_session_stage_rows [of d session_id]
    by (intro exI [of _ d'] exI [of _ ?p]) simp
qed

text \<open>
  Claim C2 as stated fails when two matched stages share a position: the positions do not
  fix the order of the two names. Two sessions with the same two events, recorded in
  opposite orders, get different signatures.
\<close>

theorem path_signature_order_counterexample:
  "map tp_event_type (filter (\<lambda>tp. tp_session_id tp = ''s1'') (touchpoints db_tied_positions))
     = [''page_view'', ''search'']
   \<and> map tp_event_type (filter (\<lambda>tp. tp_session_id tp = ''s2'') (touchpoints db_tied_positions))
     = [''search'', ''page_view'']
   \<and> map_sum id (cp_path_signature \<circ> snd)
       (end_session db_tied_positions ''p1'' ''x1'' ''2026-11-02T10:00:00'' ''s1'' True 0)
     = Inr (''Browse'' @ arrow_sep @ ''Search'')
   \<and> map_sum id (cp_path_signature \<circ> snd)
       (end_session db_tied_positions ''p2'' ''x2'' ''2026-11-02T10:00:00'' ''s2'' True 0)
     = Inr (''Search'' @ arrow_sep @ ''Browse'')
   \<and> ''Browse'' @ arrow_sep @ ''Search'' \<noteq> ''Search'' @ arrow_sep @ ''Browse''"
  by (simp add: end_session_unfold Let_def session_stage_rows_def db_tied_positions_def
      init_db_def mk_stage_def mk_touchpoint_def select_distinct_def path_signature_of_def)

text \<open>The state of the example, built by the operations themselves.\<close>

lemma tied_positions_reachable:
  "map_sum id fst
     (and_then (and_then (and_then (and_then (and_then (and_then (and_then
        (define_funnel_stage init_db ''st-a'' ''Browse'' 1 '''' ''page_view'' '''')
        (\<lambda>d. define_funnel_stage d ''st-b'' ''Search'' 1 '''' ''search'' ''''))
        (\<lambda>d. start_session d ''s1'' ''2026-11-02T09:00:00'' ''c1'' ''email'' ''desktop''))
        (\<lambda>d. start_session d ''s2'' ''2026-11-02T09:00:00'' ''c2'' ''email'' ''desktop''))
        (\<lambda>d. record_touchpoint d ''t1'' ''2026-11-02T09:00:01'' ''s1'' ''cust'' ''web'' ''/''
                ''page_view'' 0 (Some ''{}'')))
        (\<lambda>d. record_touchpoint d ''t2'' ''2026-11-02T09:00:02'' ''s1'' ''cust'' ''web'' ''/''
                ''search'' 0 (Some ''{}'')))
        (\<lambda>d. record_touchpoint d ''t3'' ''2026-11-02T09:00:03'' ''s2'' ''cust'' ''web'' ''/''
                ''search'' 0 (Some ''{}'')))
        (\<lambda>d. record_touchpoint d ''t4'' ''2026-11-02T09:00:04'' ''s2'' ''cust'' ''web'' ''/''
                ''page_view'' 0 (Some ''{}'')))
   = Inr db_tied_positions"
  by (simp add: define_funnel_stage_def start_session_def record_touchpoint_def and_then_def
      int64_range_def Let_def init_db_def db_tied_positions_def mk_stage_def mk_session_def
      mk_touchpoint_def)

lemma matched_stages_filter:
  "matched_stages d sid =
     set (filter (\<lambda>fs. list_ex (\<lambda>tp. tp_session_id tp = sid
                                     \<and> tp_event_type tp = fs_entry_event fs)
                         (touchpoints d))
            (funnel_stages d))"
  by (auto simp: matched_stages_def list_ex_iff)

text \<open>
  At a concrete state with stages of different positions: the signature is the same for the
  touchpoints as recorded and for the same touchpoints in the opposite order.
\<close>

theorem path_signature_witness:
  "''p1'' \<notin> set (map cp_id (conversion_paths db_skipped_stage))
   \<and> ''x1'' \<notin> set (map de_id (dropoff_events db_skipped_stage))
   \<and> mset (rev (touchpoints db_skipped_stage)) = mset (touchpoints db_skipped_stage)
   \<and> inj_on fs_position (matched_stages db_skipped_stage ''s1'')
   \<and> (\<exists>d' p d2 p2.
        end_session db_skipped_stage ''p1'' ''x1'' ''2026-11-02T10:00:00'' ''s1'' True 0
          = Inr (d', p)
        \<and> cp_path_signature p = ''Awareness'' @ arrow_sep @ ''Purchase''
        \<and> end_session (db_skipped_stage\<lparr>touchpoints := rev (touchpoints db_skipped_stage)\<rparr>)
            ''p1'' ''x1'' ''2026-11-02T10:00:00'' ''s1'' True 0 = Inr (d2, p2)
        \<and> cp_path_signature p2 = ''Awareness'' @ arrow_sep @ ''Purchase'')"
proof -
  have f1: "''p1'' \<notin> set (map cp_id (conversion_paths db_skipped_stage))"
    by (simp add: db_skipped_stage_def init_db_def)
  have f2: "''x1'' \<notin> set (map de_id (dropoff_events db_skipped_stage))"
    by (simp add: db_skipped_stage_def init_db_def)
  have ms: "matched_stages db_skipped_stage ''s1'' =
      {mk_stage ''st-1'' ''Awareness'' 1 ''page_view'',
       mk_stage ''st-3'' ''Purchase'' 3 ''checkout_start''}"
    by (simp add: matched_stages_filter db_skipped_stage_def init_db_def mk_stage_def
        mk_touchpoint_def)
  have inj: "inj_on fs_position (matched_stages db_skipped_stage ''s1'')"
    by (simp add: ms mk_stage_def)
  have sv: "session_stage_rows db_skipped_stage ''s1''
      = [(''st-1'', ''Awareness'', 1), (''st-3'', ''Purchase'', 3)]"
    by (simp add: session_stage_rows_def db_skipped_stage_def init_db_def mk_stage_def
        mk_touchpoint_def select_distinct_def)
  obtain d' p where r:
    "end_session db_skipped_stage ''p1'' ''x1'' ''2026-11-02T10:00:00'' ''s1'' True 0
       = Inr (d', p)"
    "cp_stages_visited p = map (\<lambda>(i, n, p). n) (session_stage_rows db_skipped_stage ''s1'')"
    "cp_path_signature p =
       (if matched_stages db_skipped_stage ''s1'' = {} then ''direct''
        else join arrow_sep (cp_stages_visited p))"
    "\<forall>tps. mset tps = mset (touchpoints db_skipped_stage)
           \<and> inj_on fs_position (matched_stages db_skipped_stage ''s1'')
       \<longrightarrow> (\<exists>d2 p2.
              end_session (db_skipped_stage\<lparr>touchpoints := tps\<rparr>) ''p1'' ''x1''
                  ''2026-11-02T10:00:00'' ''s1'' True 0 = Inr (d2, p2)
              \<and> cp_stages_visited p2 = cp_stages_visited p
              \<and> cp_path_signature p2 = cp_path_signature p)"
    using path_signature_by_position [OF f1 f2, of "''2026-11-02T10:00:00''" "''s1''" True 0]
    by blast
  have sig: "cp_path_signature p = ''Awareness'' @ arrow_sep @ ''Purchase''"
    unfolding r(3) r(2) sv by (simp add: ms)
  have "mset (rev (touchpoints db_skipped_stage)) = mset (touchpoints db_skipped_stage)
      \<and> inj_on fs_position (matched_stages db_skipped_stage ''s1'')"
    using inj by simp
  with r(4) obtain d2 p2 where r2:
    "end_session (db_skipped_stage\<lparr>touchpoints := rev (touchpoints db_skipped_stage)\<rparr>)
        ''p1'' ''x1'' ''2026-11-02T10:00:00'' ''s1'' True 0 = Inr (d2, p2)"
    "cp_path_signature p2 = cp_path_signature p"
    by blast
  show ?thesis
    using f1 f2 inj r(1) sig r2 by (intro conjI exI [of _ d'] exI [of _ p] exI [of _ d2] exI [of _ p2]) simp_all
qed

subsection \<open>Funnel analysis\<close>

lemma fl_100: "fl 100 = 100" by code_simp
lemma fl_1: "fl 1 = 1" by code_simp

lemma round2_nonneg:
  assumes "0 \<le> x"
  shows "0 \<le> round2 x"
proof -
  have "of_int 0 \<le> x * 100"
    using assms by simp
  then have "0 \<le> round_half_even (x * 100)"
    by (rule round_half_even_ge)
  then show ?thesis
    unfolding round2_def by (intro fl_nonneg) simp
qed

lemma fl_le_100:
  assumes "x \<le> 100"
  shows "fl x \<le> 100"
proof (cases "0 < x")
  case True
  then show ?thesis
    using assms fl_100 by (intro fl_le_float) simp_all
next
  case False
  then have "fl x \<le> 0"
    by (intro fl_nonpos) simp
  then show ?thesis
    by simp
qed

lemma round2_le_100:
  assumes "x \<le> 100"
  shows "round2 x \<le> 100"
proof -
  have "x * 100 \<le> of_int 10000"
    using assms by simp
  then have "round_half_even (x * 100) \<le> 10000"
    by (rule round_half_even_le)
  then have "(of_int (round_half_even (x * 100)) :: rat) \<le> of_int 10000"
    by (simp only: of_int_le_iff)
  then have "(of_int (round_half_even (x * 100)) :: rat) / 100 \<le> 100"
    by simp
  then show ?thesis
    unfolding round2_def by (rule fl_le_100)
qed

lemma ratio_rate_le_100:
  assumes "a \<le> b" "b \<noteq> (0::nat)"
  shows "fmul (fdiv (of_nat a) (of_nat b)) 100 \<le> 100"
proof -
  have q: "(of_nat a :: rat) / of_nat b \<le> 1"
    using assms by simp
  have "fdiv (of_nat a) (of_nat b) \<le> 1"
  proof (cases "a = 0")
    case True
    then show ?thesis by (simp add: fdiv_def fl_def)
  next
    case False
    then have "0 < (of_nat a :: rat) / of_nat b"
      using assms by simp
    then show ?thesis
      unfolding fdiv_def using q fl_1 by (intro fl_le_float) simp_all
  qed
  then have "fdiv (of_nat a) (of_nat b) * 100 \<le> 100"
    by simp
  then show ?thesis
    unfolding fmul_def by (rule fl_le_100)
qed

lemma ratio_rate_nonneg: "0 \<le> fmul (fdiv (of_nat a) (of_nat b)) 100"
proof -
  have "0 \<le> fdiv (of_nat a) (of_nat b)"
    unfolding fdiv_def by (intro fl_nonneg) simp
  then show ?thesis
    unfolding fmul_def by (intro fl_nonneg) simp
qed

lemma raw_rate_nonneg: "0 \<le> raw_rate n k"
  by (simp add: raw_rate_def ratio_rate_nonneg)

lemma raw_rate_le_100: "k \<le> n \<Longrightarrow> raw_rate n k \<le> 100"
  by (simp add: raw_rate_def ratio_rate_le_100)

lemma funnel_rows_rates:
  assumes "r \<in> set (funnel_rows d cutoff stages)"
  shows "conversion_rate r = round2 (raw_rate (entry_count r) (exit_count r))
    \<and> drop_off_rate r = round2 (fsub 100 (raw_rate (entry_count r) (exit_count r)))"
  using assms by (induction stages) (auto simp: Let_def raw_rate_def)

lemma count_sessions_reaching_card:
  "count_sessions_reaching d event cutoff = card (sessions_with_event d event cutoff)"
proof -
  have "set [tp_session_id tp.
          tp \<leftarrow> touchpoints d, s \<leftarrow> sessions d, tp_session_id tp = s_id s,
          tp_event_type tp = event \<and> cutoff \<le> s_start_time s]
      = sessions_with_event d event cutoff"
    by (auto simp: sessions_with_event_def)
  then show ?thesis
    by (simp add: count_sessions_reaching_def length_remdups_card_conv)
qed

lemma count_converted_reaching_card:
  "count_converted_reaching d event cutoff = card (converted_sessions_with_event d event cutoff)"
proof -
  have "set [s_id s.
          s \<leftarrow> sessions d, tp \<leftarrow> touchpoints d, s_id s = tp_session_id tp,
          s_converted s \<and> tp_event_type tp = event \<and> cutoff \<le> s_start_time s]
      = converted_sessions_with_event d event cutoff" (is "?l = ?r")
  proof (intro equalityI subsetI)
    fix x
    assume "x \<in> ?l"
    then obtain s tp where "s \<in> set (sessions d)" "tp \<in> set (touchpoints d)" "x = s_id s"
      "s_converted s" "cutoff \<le> s_start_time s" "tp_session_id tp = s_id s"
      "tp_event_type tp = event"
      by (auto split: if_splits)
    then show "x \<in> ?r"
      unfolding converted_sessions_with_event_def by blast
  next
    fix x
    assume "x \<in> ?r"
    then obtain s tp where "s \<in> set (sessions d)" "tp \<in> set (touchpoints d)" "x = s_id s"
      "s_converted s" "cutoff \<le> s_start_time s" "tp_session_id tp = s_id s"
      "tp_event_type tp = event"
      by (auto simp: converted_sessions_with_event_def)
    then show "x \<in> ?l"
      by (auto intro!: bexI [of _ s] bexI [of _ tp])
  qed
  then show ?thesis
    by (simp add: count_converted_reaching_def length_remdups_card_conv)
qed

lemma converted_subset_sessions_with_event:
  "converted_sessions_with_event d event cutoff \<subseteq> sessions_with_event d event cutoff"
  by (auto simp: converted_sessions_with_event_def sessions_with_event_def)

lemma finite_sessions_with_event: "finite (sessions_with_event d event cutoff)"
proof -
  have "sessions_with_event d event cutoff \<subseteq> s_id ` set (sessions d)"
    by (auto simp: sessions_with_event_def)
  then show ?thesis
    by (rule finite_subset) simp
qed

lemma count_converted_le_reaching:
  "count_converted_reaching d event cutoff \<le> count_sessions_reaching d event cutoff"
  unfolding count_sessions_reaching_card count_converted_reaching_card
  by (intro card_mono finite_sessions_with_event converted_subset_sessions_with_event)

lemma length_funnel_rows [simp]: "length (funnel_rows d cutoff stages) = length stages"
  by (induction stages) (simp_all add: Let_def)

lemma funnel_rows_positions:
  "map fr_position (funnel_rows d cutoff stages) = map fs_position stages"
  by (induction stages) (simp_all add: Let_def)

lemma funnel_rows_stage_ids:
  "map fr_stage_id (funnel_rows d cutoff stages) = map fs_id stages"
  by (induction stages) (simp_all add: Let_def)

lemma funnel_rows_entry:
  "i < length stages \<Longrightarrow>
     entry_count (funnel_rows d cutoff stages ! i)
       = count_sessions_reaching d (fs_entry_event (stages ! i)) cutoff"
proof (induction stages arbitrary: i)
  case Nil
  then show ?case by simp
next
  case (Cons st rest)
  then show ?case
    by (cases i) (simp_all add: Let_def)
qed

lemma funnel_rows_exit_chained:
  "Suc i < length stages \<Longrightarrow>
     exit_count (funnel_rows d cutoff stages ! i)
       = count_sessions_reaching d (fs_entry_event (stages ! Suc i)) cutoff"
proof (induction stages arbitrary: i)
  case Nil
  then show ?case by simp
next
  case (Cons st rest)
  show ?case
  proof (cases i)
    case 0
    then show ?thesis
      using Cons.prems by (cases rest) (simp_all add: Let_def)
  next
    case (Suc j)
    then show ?thesis
      using Cons by (simp add: Let_def)
  qed
qed

lemma funnel_rows_exit_last:
  "stages \<noteq> [] \<Longrightarrow>
     exit_count (last (funnel_rows d cutoff stages))
       = count_converted_reaching d (fs_entry_event (last stages)) cutoff"
proof (induction stages)
  case Nil
  then show ?case by simp
next
  case (Cons st rest)
  show ?case
  proof (cases rest)
    case Nil
    then show ?thesis by (simp add: Let_def)
  next
    case (Cons st' rest')
    then have "funnel_rows d cutoff rest \<noteq> []"
      by (simp add: Let_def)
    then show ?thesis
      using Cons.IH Cons by (simp add: Let_def)
  qed
qed

lemma funnel_rows_entry_last:
  "stages \<noteq> [] \<Longrightarrow>
     entry_count (last (funnel_rows d cutoff stages))
       = count_sessions_reaching d (fs_entry_event (last stages)) cutoff"
proof -
  assume ne: "stages \<noteq> []"
  then have "funnel_rows d cutoff stages \<noteq> []"
    by (cases stages) (simp_all add: Let_def)
  then show ?thesis
    using ne funnel_rows_entry [of "length stages - 1" stages d cutoff]
    by (simp add: last_conv_nth)
qed

lemma late_entry_stages:
  "order_by_position (funnel_stages db_late_entry) =
     [mk_stage ''st-1'' ''Awareness'' 1 ''page_view'', mk_stage ''st-2'' ''Interest'' 2 ''search'']"
  by (simp add: db_late_entry_def init_db_def order_by_position_def mk_stage_def)

lemma late_entry_counts:
  "count_sessions_reaching db_late_entry ''page_view'' ''2026-10-04T00:00:00'' = 1"
  "count_sessions_reaching db_late_entry ''search'' ''2026-10-04T00:00:00'' = 2"
  "count_converted_reaching db_late_entry ''search'' ''2026-10-04T00:00:00'' = 0"
  by (simp_all add: count_sessions_reaching_def count_converted_reaching_def db_late_entry_def
      init_db_def mk_session_def mk_touchpoint_def)

lemma float_facts:
  "fmul (fdiv 2 1) 100 = 200" "fsub 100 200 = - 100" "round2 200 = 200"
  "round2 (- 100) = - 100" "fsub 100 0 = 100" "round2 100 = 100" "round2 0 = 0"
  "fmul (fdiv 0 2) 100 = 0"
  by code_simp+

text \<open>
  Claim C4. The funnel analysis has one row per stage, in ascending position order. The exit
  count of every row but the last is the entry count of the row after it. Each entry count is
  the number of distinct sessions started in the window that have a touchpoint whose event
  type is the stage's entry event, and the exit count of the last row is the number of
  distinct converted sessions in the window that have a touchpoint whose event type is the
  last stage's entry event.
\<close>

theorem funnel_exit_counts_chained:
  "length (analyze_funnel d cutoff) = length (funnel_stages d)
   \<and> map fr_stage_id (analyze_funnel d cutoff) = map fs_id (order_by_position (funnel_stages d))
   \<and> sorted (map fr_position (analyze_funnel d cutoff))
   \<and> (\<forall>i. Suc i < length (analyze_funnel d cutoff) \<longrightarrow>
          exit_count (analyze_funnel d cutoff ! i) = entry_count (analyze_funnel d cutoff ! Suc i))
   \<and> (\<forall>i < length (analyze_funnel d cutoff).
          entry_count (analyze_funnel d cutoff ! i)
            = card (sessions_with_event d
                      (fs_entry_event (order_by_position (funnel_stages d) ! i)) cutoff))
   \<and> (analyze_funnel d cutoff \<noteq> [] \<longrightarrow>
          exit_count (last (analyze_funnel d cutoff))
            = card (converted_sessions_with_event d
                      (fs_entry_event (last (order_by_position (funnel_stages d)))) cutoff))"
proof -
  let ?sts = "order_by_position (funnel_stages d)"
  have len: "length ?sts = length (funnel_stages d)"
    by (simp add: order_by_position_def)
  have srt: "sorted (map fr_position (analyze_funnel d cutoff))"
    by (simp add: analyze_funnel_def funnel_rows_positions order_by_position_def)
  have chain: "exit_count (analyze_funnel d cutoff ! i) = entry_count (analyze_funnel d cutoff ! Suc i)"
    if "Suc i < length (analyze_funnel d cutoff)" for i
    using that by (simp add: analyze_funnel_def funnel_rows_exit_chained funnel_rows_entry)
  have entry: "entry_count (analyze_funnel d cutoff ! i)
      = card (sessions_with_event d (fs_entry_event (?sts ! i)) cutoff)"
    if "i < length (analyze_funnel d cutoff)" for i
    using that
    by (simp add: analyze_funnel_def funnel_rows_entry count_sessions_reaching_card)
  have lst: "exit_count (last (analyze_funnel d cutoff))
      = card (converted_sessions_with_event d (fs_entry_event (last ?sts)) cutoff)"
    if "analyze_funnel d cutoff \<noteq> []"
  proof -
    have "?sts \<noteq> []"
      using that by (auto simp: analyze_funnel_def)
    then show ?thesis
      by (simp add: analyze_funnel_def funnel_rows_exit_last count_converted_reaching_card)
  qed
  show ?thesis
    using len srt chain entry lst
    by (simp add: analyze_funnel_def funnel_rows_stage_ids)
qed

text \<open>
  At a concrete state with two stages: the first row's exit count is the second row's entry
  count, 2, and the last row's exit count is the count of the converted sessions.
\<close>

theorem funnel_exit_counts_witness:
  "length (analyze_funnel db_late_entry ''2026-10-04T00:00:00'') = 2
   \<and> exit_count (analyze_funnel db_late_entry ''2026-10-04T00:00:00'' ! 0)
       = entry_count (analyze_funnel db_late_entry ''2026-10-04T00:00:00'' ! 1)
   \<and> entry_count (analyze_funnel db_late_entry ''2026-10-04T00:00:00'' ! 1) = 2
   \<and> exit_count (last (analyze_funnel db_late_entry ''2026-10-04T00:00:00''))
       = card (converted_sessions_with_event db_late_entry ''search'' ''2026-10-04T00:00:00'')"
proof -
  let ?rs = "analyze_funnel db_late_entry ''2026-10-04T00:00:00''"
  note inst = funnel_exit_counts_chained [of db_late_entry "''2026-10-04T00:00:00''"]
  have len: "length ?rs = 2"
    using inst by (simp add: db_late_entry_def init_db_def)
  then have ne: "?rs \<noteq> []"
    by auto
  have chain: "exit_count (?rs ! 0) = entry_count (?rs ! 1)"
    using inst len by simp
  have "entry_count (?rs ! 1)
      = count_sessions_reaching db_late_entry
          (fs_entry_event (order_by_position (funnel_stages db_late_entry) ! 1))
          ''2026-10-04T00:00:00''"
    unfolding analyze_funnel_def by (rule funnel_rows_entry) (simp add: late_entry_stages)
  also have "\<dots> = 2"
    by (simp add: late_entry_stages mk_stage_def late_entry_counts)
  finally have e1: "entry_count (?rs ! 1) = 2" .
  have "exit_count (last ?rs)
      = card (converted_sessions_with_event db_late_entry
          (fs_entry_event (last (order_by_position (funnel_stages db_late_entry))))
          ''2026-10-04T00:00:00'')"
    using inst ne by blast
  then have lst: "exit_count (last ?rs)
      = card (converted_sessions_with_event db_late_entry ''search'' ''2026-10-04T00:00:00'')"
    by (simp add: late_entry_stages mk_stage_def)
  show ?thesis
    using len chain e1 lst by simp
qed

text \<open>
  What the rows report. The conversion rate is \<^verbatim>\<open>round(c, 2)\<close> for \<open>c\<close> the float
  \<^verbatim>\<open>exit_count / entry_count * 100\<close> (0 when the entry count is 0), and the drop-off
  rate is \<^verbatim>\<open>round(100.0 - c, 2)\<close>. The conversion rate is never negative and the
  drop-off rate never exceeds 100. Both lie between 0 and 100 in every row whose exit count
  is at most its entry count, and the last row is such a row.
\<close>

lemma funnel_rates_bounds:
  "(\<forall>r \<in> set (analyze_funnel d cutoff).
      conversion_rate r = round2 (raw_rate (entry_count r) (exit_count r))
      \<and> drop_off_rate r = round2 (fsub 100 (raw_rate (entry_count r) (exit_count r)))
      \<and> 0 \<le> conversion_rate r
      \<and> drop_off_rate r \<le> 100
      \<and> (exit_count r \<le> entry_count r \<longrightarrow> conversion_rate r \<le> 100 \<and> 0 \<le> drop_off_rate r))
   \<and> (analyze_funnel d cutoff \<noteq> [] \<longrightarrow>
        exit_count (last (analyze_funnel d cutoff)) \<le> entry_count (last (analyze_funnel d cutoff)))"
proof -
  have rows: "conversion_rate r = round2 (raw_rate (entry_count r) (exit_count r))
      \<and> drop_off_rate r = round2 (fsub 100 (raw_rate (entry_count r) (exit_count r)))
      \<and> 0 \<le> conversion_rate r
      \<and> drop_off_rate r \<le> 100
      \<and> (exit_count r \<le> entry_count r \<longrightarrow> conversion_rate r \<le> 100 \<and> 0 \<le> drop_off_rate r)"
    if "r \<in> set (analyze_funnel d cutoff)" for r
  proof -
    let ?c = "raw_rate (entry_count r) (exit_count r)"
    from that have eq: "conversion_rate r = round2 ?c" "drop_off_rate r = round2 (fsub 100 ?c)"
      using funnel_rows_rates by (simp_all add: analyze_funnel_def)
    have c0: "0 \<le> ?c"
      by (rule raw_rate_nonneg)
    have "fsub 100 ?c \<le> 100"
      unfolding fsub_def using c0 by (intro fl_le_100) simp
    then have d100: "round2 (fsub 100 ?c) \<le> 100"
      by (rule round2_le_100)
    have le: "round2 ?c \<le> 100 \<and> 0 \<le> round2 (fsub 100 ?c)" if "exit_count r \<le> entry_count r"
    proof -
      have c100: "?c \<le> 100"
        using that by (rule raw_rate_le_100)
      then have "0 \<le> fsub 100 ?c"
        unfolding fsub_def by (intro fl_nonneg) simp
      then show ?thesis
        using c100 by (simp add: round2_le_100 round2_nonneg)
    qed
    show ?thesis
      using eq c0 d100 le by (simp add: round2_nonneg)
  qed
  have lst: "exit_count (last (analyze_funnel d cutoff)) \<le> entry_count (last (analyze_funnel d cutoff))"
    if "analyze_funnel d cutoff \<noteq> []"
  proof -
    have "order_by_position (funnel_stages d) \<noteq> []"
      using that by (auto simp: analyze_funnel_def)
    then show ?thesis
      by (simp add: analyze_funnel_def funnel_rows_exit_last funnel_rows_entry_last
          count_converted_le_reaching)
  qed
  show ?thesis
    using rows lst by blast
qed

text \<open>
  At a concrete state: the last row has no exits and two entries, and both of its rates lie
  between 0 and 100.
\<close>

lemma funnel_rates_last_row_example:
  "analyze_funnel db_late_entry ''2026-10-04T00:00:00'' \<noteq> []
   \<and> exit_count (last (analyze_funnel db_late_entry ''2026-10-04T00:00:00''))
       \<le> entry_count (last (analyze_funnel db_late_entry ''2026-10-04T00:00:00''))
   \<and> 0 \<le> conversion_rate (last (analyze_funnel db_late_entry ''2026-10-04T00:00:00''))
   \<and> conversion_rate (last (analyze_funnel db_late_entry ''2026-10-04T00:00:00'')) \<le> 100
   \<and> 0 \<le> drop_off_rate (last (analyze_funnel db_late_entry ''2026-10-04T00:00:00''))
   \<and> drop_off_rate (last (analyze_funnel db_late_entry ''2026-10-04T00:00:00'')) \<le> 100"
proof -
  let ?rs = "analyze_funnel db_late_entry ''2026-10-04T00:00:00''"
  note inst = funnel_rates_bounds [of db_late_entry "''2026-10-04T00:00:00''"]
  have ne: "?rs \<noteq> []"
    by (simp add: analyze_funnel_def late_entry_stages Let_def)
  then have mem: "last ?rs \<in> set ?rs"
    by simp
  have le: "exit_count (last ?rs) \<le> entry_count (last ?rs)"
    using inst ne by blast
  show ?thesis
    using inst ne mem le by blast
qed

text \<open>
  Claim C3 does not hold of the code: a rate can leave the interval from 0 to 100. The exit
  count of a row that is not the last is the entry count of the next stage, and a session
  can enter the next stage without having entered this one. With two stages, one session
  that entered the first and two that entered the second, the row of the first stage has
  one entry and two exits, and reports a conversion rate of 200 and a drop-off rate of
  -100. The repository's own test of the funnel expects the conversion rate of a first
  stage between 0 and 100, and the last row, whose exits are counted among its entries,
  keeps to it.
\<close>

theorem funnel_rates_out_of_range:
  "map (\<lambda>r. (entry_count r, exit_count r, conversion_rate r, drop_off_rate r))
     (analyze_funnel db_late_entry ''2026-10-04T00:00:00'')
   = [(1, 2, 200, - 100), (2, 0, 0, 100)]"
  by (simp add: analyze_funnel_def late_entry_stages mk_stage_def late_entry_counts float_facts
      Let_def)

text \<open>The state of the example, built by the operations themselves.\<close>

lemma late_entry_reachable:
  "map_sum id fst
     (and_then (and_then (and_then (and_then (and_then (and_then
        (define_funnel_stage init_db ''st-1'' ''Awareness'' 1 '''' ''page_view'' '''')
        (\<lambda>d. define_funnel_stage d ''st-2'' ''Interest'' 2 '''' ''search'' ''''))
        (\<lambda>d. start_session d ''s1'' ''2026-11-02T09:00:00'' ''c1'' ''email'' ''desktop''))
        (\<lambda>d. start_session d ''s2'' ''2026-11-02T09:00:00'' ''c2'' ''email'' ''desktop''))
        (\<lambda>d. record_touchpoint d ''t1'' ''2026-11-02T09:00:01'' ''s1'' ''cust'' ''web'' ''/''
                ''page_view'' 0 (Some ''{}'')))
        (\<lambda>d. record_touchpoint d ''t2'' ''2026-11-02T09:00:02'' ''s1'' ''cust'' ''web'' ''/''
                ''search'' 0 (Some ''{}'')))
        (\<lambda>d. record_touchpoint d ''t3'' ''2026-11-02T09:00:03'' ''s2'' ''cust'' ''web'' ''/''
                ''search'' 0 (Some ''{}'')))
   = Inr db_late_entry"
  by (simp add: define_funnel_stage_def start_session_def record_touchpoint_def and_then_def
      int64_range_def Let_def init_db_def db_late_entry_def mk_stage_def mk_session_def
      mk_touchpoint_def)

text \<open>
  The two reported rates are rounded one by one. With 23 exits on 160 entries the rate is
  the float just below 14.375, reported as 14.37, and 100.0 minus it is 85.625 exactly,
  reported as 85.62: the reported values add up to a float that is not 100.
\<close>

lemma rounded_rates_sum_example:
  "round2 (raw_rate 160 23) + round2 (fsub 100 (raw_rate 160 23)) \<noteq> 100"
  by code_simp

subsection \<open>Timestamps\<close>

text \<open>
  A timestamp in the program's own format has an hour below 24, and the hour that the
  dropoff query cuts out of the text is that hour.
\<close>

lemma weekday_less: "weekday dt < 7"
  by (simp add: weekday_def)

lemma parse_isoformat_hour:
  assumes "parse_isoformat ts = Some dt"
  shows "dt_hour dt < 24"
  using assms unfolding parse_isoformat_def
  by (auto split: if_splits option.splits)

lemma parse_digits_acc_prefix:
  "parse_digits_acc acc s = Some v \<Longrightarrow> digits_prefix acc s = v"
  by (induction s arbitrary: acc) (auto split: option.splits)

lemma digit_not_space_or_sign:
  assumes "digit_val c = Some v"
  shows "\<not> is_space c \<and> c \<noteq> CHR ''-'' \<and> c \<noteq> CHR ''+''"
  using assms by (auto simp: digit_val_def is_space_def less_eq_char_def split: if_splits)

lemma cast_integer_digits:
  assumes "parse_digits s = Some v"
  shows "cast_integer s = int v"
proof (cases s)
  case Nil
  then show ?thesis
    using assms by (simp add: parse_digits_def)
next
  case (Cons c cs)
  then have acc: "parse_digits_acc 0 (c # cs) = Some v"
    using assms by (simp add: parse_digits_def)
  then obtain x where x: "digit_val c = Some x"
    by (auto split: option.splits)
  have "digits_prefix 0 (c # cs) = v"
    using acc by (rule parse_digits_acc_prefix)
  then show ?thesis
    using Cons digit_not_space_or_sign [OF x] by (simp add: cast_integer_def)
qed

lemma parse_isoformat_hour_digits:
  assumes "parse_isoformat ts = Some dt"
  shows "parse_digits (take 2 (drop 11 ts)) = Some (dt_hour dt)"
  using assms unfolding parse_isoformat_def
  by (auto split: if_splits option.splits)

lemma hour_of_parsed_timestamp:
  assumes "parse_isoformat ts = Some dt"
  shows "hour_of_timestamp ts = int (dt_hour dt)"
  unfolding hour_of_timestamp_def
  by (intro cast_integer_digits parse_isoformat_hour_digits assms)

subsection \<open>Dropoff analysis\<close>

lemma sum_list_sort_key:
  fixes xs :: "('k \<times> nat) list"
  shows "sum_list (map snd (sort_key f xs)) = sum_list (map snd xs)"
proof -
  have "mset (map snd (sort_key f xs)) = mset (map snd xs)"
    by simp
  then show ?thesis
    by (metis sum_mset_sum_list)
qed

lemma distinct_fst_sort_key: "distinct (map fst (sort_key f xs)) = distinct (map fst xs)"
proof -
  have "mset (map fst (sort_key f xs)) = mset (map fst xs)"
    by simp
  then show ?thesis
    by (metis mset_eq_imp_distinct_iff)
qed

lemma sum_group_count: "sum_list (map snd (group_count ks)) = length ks"
proof -
  have "sum_list (map snd (group_count ks)) = sum_list (map (count_list ks) (select_distinct ks))"
    by (simp add: group_count_def comp_def)
  also have "\<dots> = sum (count_list ks) (set (select_distinct ks))"
    by (rule sum_list_distinct_conv_sum_set) (rule distinct_select_distinct)
  also have "\<dots> = length ks"
    by (simp add: set_select_distinct sum_count_set)
  finally show ?thesis .
qed

lemma distinct_group_count: "distinct (map fst (group_count ks))"
  by (simp add: group_count_def comp_def distinct_select_distinct)

lemma set_group_count:
  "set (group_count ks) = (\<lambda>k. (k, length (filter (\<lambda>x. x = k) ks))) ` set ks"
proof -
  have "count_list ks k = length (filter (\<lambda>x. x = k) ks)" for k
    by (induction ks) simp_all
  then show ?thesis
    by (simp add: group_count_def set_select_distinct)
qed

lemma sum_order_by_count_desc:
  "sum_list (map snd (order_by_count_desc xs)) = sum_list (map snd xs)"
  by (simp add: order_by_count_desc_def sum_list_sort_key)

lemma distinct_order_by_count_desc:
  "distinct (map fst (order_by_count_desc xs)) = distinct (map fst xs)"
  by (simp add: order_by_count_desc_def distinct_fst_sort_key)

lemma length_filter_key_distinct:
  assumes "distinct (map f xs)"
  shows "length (filter (\<lambda>x. k = f x) xs) = (if k \<in> f ` set xs then 1 else 0)"
  using assms by (induction xs) auto

lemma length_join_sessions:
  assumes "distinct (map s_id ss)"
  shows "length [s_channel s. de \<leftarrow> evs, s \<leftarrow> ss, de_session_id de = s_id s]
    = length (filter (\<lambda>de. de_session_id de \<in> set (map s_id ss)) evs)"
proof (induction evs)
  case Nil
  then show ?case by simp
next
  case (Cons de evs)
  have "concat (map (\<lambda>s. if de_session_id de = s_id s then [s_channel s] else []) ss)
      = map s_channel (filter (\<lambda>s. de_session_id de = s_id s) ss)"
    by (induction ss) simp_all
  then have "length (concat (map (\<lambda>s. if de_session_id de = s_id s then [s_channel s] else []) ss))
      = (if de_session_id de \<in> s_id ` set ss then 1 else 0)"
    using length_filter_key_distinct [OF assms, of "de_session_id de"] by simp
  then show ?case
    using Cons by simp
qed

text \<open>
  Claim C8, as the code has it. For every stage id, the counts by reason and the counts by
  hour are taken over the dropoff events of that stage, one group per value, so each of the
  two adds up to the number of those events, which is also the reported total. The counts by
  channel are taken over the join of those events with the session table: they add up to the
  number of those events whose session is stored (session ids being unique), and so to the
  number of all of them when every such event has its session. The hours are between 0 and
  23 when the timestamps of the events parse, as the timestamps that the program writes do.
\<close>

theorem dropoff_aggregation_totals:
  "total_dropoffs (analyze_dropoffs d stage_id)
     = length (filter (\<lambda>de. de_stage_id de = stage_id) (dropoff_events d))
   \<and> sum_list (map snd (reasons (analyze_dropoffs d stage_id)))
     = length (filter (\<lambda>de. de_stage_id de = stage_id) (dropoff_events d))
   \<and> sum_list (map snd (time_of_day (analyze_dropoffs d stage_id)))
     = length (filter (\<lambda>de. de_stage_id de = stage_id) (dropoff_events d))
   \<and> (distinct (map s_id (sessions d)) \<longrightarrow>
        sum_list (map snd (by_channel (analyze_dropoffs d stage_id)))
          = length (filter (\<lambda>de. de_stage_id de = stage_id
                              \<and> de_session_id de \<in> set (map s_id (sessions d)))
                      (dropoff_events d)))
   \<and> (distinct (map s_id (sessions d))
        \<and> (\<forall>de \<in> set (dropoff_events d).
              de_stage_id de = stage_id \<longrightarrow> de_session_id de \<in> set (map s_id (sessions d)))
        \<longrightarrow> sum_list (map snd (by_channel (analyze_dropoffs d stage_id)))
              = length (filter (\<lambda>de. de_stage_id de = stage_id) (dropoff_events d)))
   \<and> set (reasons (analyze_dropoffs d stage_id))
       = (\<lambda>k. (k, length (filter (\<lambda>de. de_stage_id de = stage_id \<and> de_reason de = k)
                              (dropoff_events d))))
         ` de_reason ` {de \<in> set (dropoff_events d). de_stage_id de = stage_id}
   \<and> set (time_of_day (analyze_dropoffs d stage_id))
       = (\<lambda>k. (k, length (filter (\<lambda>de. de_stage_id de = stage_id
                                       \<and> hour_of_timestamp (de_timestamp de) = k)
                              (dropoff_events d))))
         ` (\<lambda>de. hour_of_timestamp (de_timestamp de))
         ` {de \<in> set (dropoff_events d). de_stage_id de = stage_id}
   \<and> ((\<forall>de \<in> set (dropoff_events d).
          de_stage_id de = stage_id \<longrightarrow> parse_isoformat (de_timestamp de) \<noteq> None)
        \<longrightarrow> (\<forall>(k, c) \<in> set (time_of_day (analyze_dropoffs d stage_id)). 0 \<le> k \<and> k \<le> 23))
   \<and> distinct (map fst (reasons (analyze_dropoffs d stage_id)))
   \<and> distinct (map fst (time_of_day (analyze_dropoffs d stage_id)))
   \<and> distinct (map fst (by_channel (analyze_dropoffs d stage_id)))"
proof -
  let ?evs = "filter (\<lambda>de. de_stage_id de = stage_id) (dropoff_events d)"
  let ?r = "analyze_dropoffs d stage_id"
  have r1: "sum_list (map snd (reasons ?r)) = length ?evs"
    by (simp add: analyze_dropoffs_def Let_def sum_order_by_count_desc sum_group_count)
  have r0: "total_dropoffs ?r = length ?evs"
    by (simp add: analyze_dropoffs_def Let_def sum_order_by_count_desc sum_group_count)
  have r2: "sum_list (map snd (time_of_day ?r)) = length ?evs"
    by (simp add: analyze_dropoffs_def Let_def sum_list_sort_key sum_group_count)
  have ch: "sum_list (map snd (by_channel ?r))
      = length [s_channel s. de \<leftarrow> ?evs, s \<leftarrow> sessions d, de_session_id de = s_id s]"
    by (simp add: analyze_dropoffs_def Let_def sum_order_by_count_desc sum_group_count)
  have r3: "sum_list (map snd (by_channel ?r))
      = length (filter (\<lambda>de. de_stage_id de = stage_id
                            \<and> de_session_id de \<in> set (map s_id (sessions d)))
                  (dropoff_events d))"
    if "distinct (map s_id (sessions d))"
    unfolding ch length_join_sessions [OF that] by simp
  have r4: "sum_list (map snd (by_channel ?r)) = length ?evs"
    if "distinct (map s_id (sessions d))"
      "\<forall>de \<in> set (dropoff_events d).
         de_stage_id de = stage_id \<longrightarrow> de_session_id de \<in> set (map s_id (sessions d))"
  proof -
    have "filter (\<lambda>de. de_stage_id de = stage_id
                      \<and> de_session_id de \<in> set (map s_id (sessions d))) (dropoff_events d)
        = ?evs"
      using that(2) by (intro filter_cong) auto
    then show ?thesis
      using r3 [OF that(1)] by simp
  qed
  have cnt: "length (filter (\<lambda>x. x = k) (map f ?evs))
      = length (filter (\<lambda>de. de_stage_id de = stage_id \<and> f de = k) (dropoff_events d))"
    for f :: "dropoff_event \<Rightarrow> 'k" and k
    by (simp add: filter_map comp_def conj_commute)
  have s1: "set (reasons ?r)
      = (\<lambda>k. (k, length (filter (\<lambda>de. de_stage_id de = stage_id \<and> de_reason de = k)
                             (dropoff_events d))))
        ` de_reason ` {de \<in> set (dropoff_events d). de_stage_id de = stage_id}"
    by (simp add: analyze_dropoffs_def Let_def order_by_count_desc_def set_group_count cnt
        image_image)
  have s2: "set (time_of_day ?r)
      = (\<lambda>k. (k, length (filter (\<lambda>de. de_stage_id de = stage_id
                                      \<and> hour_of_timestamp (de_timestamp de) = k)
                             (dropoff_events d))))
        ` (\<lambda>de. hour_of_timestamp (de_timestamp de))
        ` {de \<in> set (dropoff_events d). de_stage_id de = stage_id}"
    by (simp add: analyze_dropoffs_def Let_def set_group_count cnt image_image)
  have hrs: "\<forall>(k, c) \<in> set (time_of_day ?r). 0 \<le> k \<and> k \<le> 23"
    if parse: "\<forall>de \<in> set (dropoff_events d).
          de_stage_id de = stage_id \<longrightarrow> parse_isoformat (de_timestamp de) \<noteq> None"
  proof -
    have "0 \<le> hour_of_timestamp (de_timestamp de) \<and> hour_of_timestamp (de_timestamp de) \<le> 23"
      if de: "de \<in> set (dropoff_events d)" "de_stage_id de = stage_id" for de
    proof -
      have "parse_isoformat (de_timestamp de) \<noteq> None"
        using parse de by blast
      then obtain dt where dt: "parse_isoformat (de_timestamp de) = Some dt"
        by blast
      show ?thesis
        using hour_of_parsed_timestamp [OF dt] parse_isoformat_hour [OF dt] by simp
    qed
    then show ?thesis
      unfolding s2 by auto
  qed
  have d1: "distinct (map fst (reasons ?r))"
    and d2: "distinct (map fst (time_of_day ?r))"
    and d3: "distinct (map fst (by_channel ?r))"
    by (simp_all add: analyze_dropoffs_def Let_def distinct_order_by_count_desc
        distinct_fst_sort_key distinct_group_count)
  show ?thesis
    using r0 r1 r2 r3 r4 s1 s2 hrs d1 d2 d3 by blast
qed

text \<open>
  At a concrete state with two dropoff events at one stage, of which one names a session
  that is not stored.
\<close>

theorem dropoff_aggregation_totals_witness:
  "distinct (map s_id (sessions db_orphan_dropoff))
   \<and> sum_list (map snd (reasons (analyze_dropoffs db_orphan_dropoff ''st-1''))) = 2
   \<and> sum_list (map snd (time_of_day (analyze_dropoffs db_orphan_dropoff ''st-1''))) = 2
   \<and> sum_list (map snd (by_channel (analyze_dropoffs db_orphan_dropoff ''st-1''))) = 1"
proof -
  have dist: "distinct (map s_id (sessions db_orphan_dropoff))"
    by (simp add: db_orphan_dropoff_def init_db_def)
  have n: "length (filter (\<lambda>de. de_stage_id de = ''st-1'') (dropoff_events db_orphan_dropoff)) = 2"
    by (simp add: db_orphan_dropoff_def init_db_def)
  have m: "length (filter (\<lambda>de. de_stage_id de = ''st-1''
                \<and> de_session_id de \<in> set (map s_id (sessions db_orphan_dropoff)))
             (dropoff_events db_orphan_dropoff)) = 1"
    by (simp add: db_orphan_dropoff_def init_db_def mk_session_def)
  show ?thesis
    using dropoff_aggregation_totals [of db_orphan_dropoff "''st-1''"] dist n m
    by simp
qed

text \<open>
  Claim C8 as stated fails: \<^verbatim>\<open>end_session\<close> does not check that the session exists, so a
  dropoff event can name a session that is not stored, and the join drops it. Two events at
  the stage, a total of 2, and one event counted by channel.
\<close>

theorem dropoff_channel_total_counterexample:
  "total_dropoffs (analyze_dropoffs db_orphan_dropoff ''st-1'') = 2
   \<and> reasons (analyze_dropoffs db_orphan_dropoff ''st-1'') = [(''stage_not_reached'', 2)]
   \<and> time_of_day (analyze_dropoffs db_orphan_dropoff ''st-1'') = [(10, 1), (23, 1)]
   \<and> by_channel (analyze_dropoffs db_orphan_dropoff ''st-1'') = [(''email'', 1)]"
  by (simp add: analyze_dropoffs_def Let_def db_orphan_dropoff_def init_db_def mk_session_def
      group_count_def select_distinct_def order_by_count_desc_def hour_of_timestamp_def
      cast_integer_def is_space_def digit_val_def)

text \<open>The state of the example is reached by closing a session that was never started.\<close>

lemma orphan_dropoff_reachable:
  "map_sum id (dropoff_events \<circ> fst)
     (end_session (db_orphan_dropoff\<lparr>dropoff_events := take 1 (dropoff_events db_orphan_dropoff)\<rparr>)
        ''p2'' ''x2'' ''2026-11-02T23:30:00'' ''no-such-session'' False 0)
   = Inr (dropoff_events db_orphan_dropoff)"
  by (simp add: end_session_unfold Let_def session_stage_rows_def db_orphan_dropoff_def
      init_db_def mk_stage_def select_distinct_def order_by_position_def)








subsection \<open>Lifetime value segments\<close>

lemma customer_ltv_rows_empty:
  assumes "\<forall>s \<in> set (sessions d). \<not> s_converted s"
  shows "customer_ltv_rows d = []"
proof -
  have "filter s_converted (sessions d) = []"
    using assms by (auto simp: filter_empty_conv)
  then show ?thesis
    by (simp add: customer_ltv_rows_def select_distinct_def)
qed

text \<open>
  Claim C10. When no stored session is converted, \<^verbatim>\<open>compute_customer_ltv_segments\<close>
  returns the empty list, whatever the number of buckets asked for.
\<close>

theorem ltv_segments_no_converted:
  assumes "\<forall>s \<in> set (sessions d). \<not> s_converted s"
  shows "compute_customer_ltv_segments d buckets = Inr []"
  using customer_ltv_rows_empty [OF assms]
  by (simp add: compute_customer_ltv_segments_def)

text \<open>At a concrete state with two sessions, none converted, for 5 and for 0 buckets.\<close>

theorem ltv_segments_no_converted_witness:
  "map s_converted (sessions db_late_entry) = [False, False]
   \<and> compute_customer_ltv_segments db_late_entry 5 = Inr []
   \<and> compute_customer_ltv_segments db_late_entry 0 = Inr []"
proof -
  have flags: "map s_converted (sessions db_late_entry) = [False, False]"
    by (simp add: db_late_entry_def init_db_def mk_session_def)
  have none: "\<forall>s \<in> set (sessions db_late_entry). \<not> s_converted s"
    by (simp add: db_late_entry_def init_db_def mk_session_def)
  show ?thesis
    using flags ltv_segments_no_converted [OF none, of 5]
      ltv_segments_no_converted [OF none, of 0]
    by simp
qed

lemma ltv_gap_rows:
  "customer_ltv_rows db_ltv_gap = [(''c1'', fl (4999 / 100)), (''c2'', 100)]"
  by code_simp

text \<open>
  Claim C5 does not hold of the code. With totals 49.99 and 100.0 and the default 5 buckets
  the width is the float 10.001999999999999, and the upper bound of the last bucket,
  \<open>49.99 + 4 * width + width\<close> in float arithmetic, is the float just below 100: the
  customer whose total is the maximum lies in no bucket. The five segments report one
  customer between them, and the last reports the range 90.0 to 100.0 with no customer.
\<close>

theorem ltv_segments_max_customer_uncounted:
  "map_sum id (map (\<lambda>s. (bucket s, ltv_min s, ltv_max s, customer_count s)))
     (compute_customer_ltv_segments db_ltv_gap 5)
   = Inr [(1, fl (4999 / 100), fl (5999 / 100), 1),
          (2, fl (5999 / 100), fl (6999 / 100), 0),
          (3, fl (6999 / 100), 80, 0),
          (4, 80, 90, 0),
          (5, 90, 100, 0)]"
  by code_simp

text \<open>The upper bound of the last bucket before it is rounded for the report.\<close>

lemma ltv_gap_last_upper_bound:
  "fadd (fadd (fl (4999 / 100)) (fmul (fl 4) (fdiv (fsub 100 (fl (4999 / 100))) (fl 5))))
        (fdiv (fsub 100 (fl (4999 / 100))) (fl 5))
     = 100 - 1 / 2 ^ 46"
  by code_simp

text \<open>
  The state of the example is that of two sessions closed as converted with these values,
  but for the end times and the two conversion paths, which the segmentation does not read.
\<close>

lemma ltv_gap_reachable:
  "map_sum id fst
     (and_then (and_then (and_then
        (start_session init_db ''s1'' ''2026-11-02T09:00:00'' ''c1'' ''email'' ''desktop'')
        (\<lambda>d. start_session d ''s2'' ''2026-11-02T09:00:00'' ''c2'' ''email'' ''desktop''))
        (\<lambda>d. end_session d ''p1'' ''x1'' ''2026-11-02T10:00:00'' ''s1'' True (fl (4999 / 100))))
        (\<lambda>d. end_session d ''p2'' ''x2'' ''2026-11-02T10:00:00'' ''s2'' True 100))
   = Inr (db_ltv_gap
            \<lparr>sessions := map (\<lambda>s. s\<lparr>s_end_time := Some ''2026-11-02T10:00:00''\<rparr>)
                             (sessions db_ltv_gap),
              conversion_paths :=
                [\<lparr>cp_id = ''p1'', cp_session_id = ''s1'', cp_stages_visited = [],
                  cp_path_signature = ''direct'', cp_converted = True,
                  cp_created_at = ''2026-11-02T10:00:00''\<rparr>,
                 \<lparr>cp_id = ''p2'', cp_session_id = ''s2'', cp_stages_visited = [],
                  cp_path_signature = ''direct'', cp_converted = True,
                  cp_created_at = ''2026-11-02T10:00:00''\<rparr>]\<rparr>)"
  by (simp add: start_session_def end_session_unfold and_then_def session_stage_rows_def
      select_distinct_def path_signature_of_def
      Let_def init_db_def db_ltv_gap_def mk_session_def)

subsection \<open>Journey heatmap\<close>

lemma heatmap_cell_range:
  assumes "\<And>ts dt. fromisoformat ts = Some dt \<Longrightarrow> dt_hour dt < 24"
    and "heatmap_cell fromisoformat ts = Some (day, h)"
  shows "day < 7 \<and> h < 24"
  using assms weekday_less
  by (auto simp: heatmap_cell_def)

lemma heatmap_cell_None:
  "heatmap_cell fromisoformat ts = None \<longleftrightarrow> fromisoformat ts = None"
  by (simp add: heatmap_cell_def)

lemma sum_list_bump_row:
  fixes row :: "nat list"
  assumes "h < length row"
  shows "sum_list (row[h := row ! h + 1]) = Suc (sum_list row)"
proof -
  have "row ! h \<le> sum_list row"
    using assms by (simp add: member_le_sum_list)
  then show ?thesis
    using assms by (simp add: sum_list_update)
qed

lemma bump_ok:
  assumes "matrix_7x24 m" "day < 7" "h < 24"
  shows "\<exists>m'. bump m day h = Inr m' \<and> matrix_7x24 m'
    \<and> sum_list (map sum_list m') = Suc (sum_list (map sum_list m))
    \<and> (\<forall>i < 7. \<forall>j < 24. m' ! i ! j = m ! i ! j + (if i = day \<and> j = h then 1 else 0))"
proof -
  let ?row = "(m ! day)[h := m ! day ! h + 1]"
  let ?m' = "m[day := ?row]"
  have len: "length m = 7" and rows: "\<forall>row \<in> set m. length row = 24"
    using assms(1) by (simp_all add: matrix_7x24_def)
  have dayrow: "length (m ! day) = 24"
    using len rows assms(2) by simp
  have b: "bump m day h = Inr ?m'"
    using len dayrow assms by (simp add: bump_def)
  have shape: "matrix_7x24 ?m'"
    using len rows dayrow
    by (auto simp: matrix_7x24_def dest!: set_update_subset_insert [THEN subsetD])
  have "sum_list ?row = Suc (sum_list (m ! day))"
    using dayrow assms(3) by (intro sum_list_bump_row) simp
  moreover have "map sum_list ?m' = (map sum_list m)[day := sum_list ?row]"
    by (simp add: map_update)
  moreover have "sum_list (m ! day) \<le> sum_list (map sum_list m)"
    using len assms(2) member_le_sum_list [of "sum_list (m ! day)" "map sum_list m"] by simp
  ultimately have total: "sum_list (map sum_list ?m') = Suc (sum_list (map sum_list m))"
    using len assms(2) by (simp add: sum_list_update)
  have cells: "?m' ! i ! j = m ! i ! j + (if i = day \<and> j = h then 1 else 0)"
    if "i < 7" "j < 24" for i j
  proof (cases "i = day")
    case True
    then show ?thesis
      using that len dayrow by (simp add: nth_list_update)
  next
    case False
    then show ?thesis
      by simp
  qed
  show ?thesis
    using b shape total cells by blast
qed

lemma heatmap_rows_ok:
  assumes hour: "\<forall>ts dt. fromisoformat ts = Some dt \<longrightarrow> dt_hour dt < 24"
    and "matrix_7x24 m"
  shows "\<exists>m'. heatmap_rows fromisoformat m tss = Inr m' \<and> matrix_7x24 m'
    \<and> sum_list (map sum_list m')
        = sum_list (map sum_list m) + length (filter (\<lambda>ts. fromisoformat ts \<noteq> None) tss)
    \<and> (\<forall>i < 7. \<forall>j < 24.
          m' ! i ! j
            = m ! i ! j + length (filter (\<lambda>ts. heatmap_cell fromisoformat ts = Some (i, j)) tss))"
  using assms(2)
proof (induction tss arbitrary: m)
  case Nil
  then show ?case by simp
next
  case (Cons ts tss)
  show ?case
  proof (cases "fromisoformat ts")
    case None
    then have "heatmap_cell fromisoformat ts = None"
      by (simp add: heatmap_cell_def)
    then show ?thesis
      using Cons.IH [OF Cons.prems] None by simp
  next
    case (Some dt)
    have cell: "heatmap_cell fromisoformat ts = Some (weekday dt, dt_hour dt)"
      using Some by (simp add: heatmap_cell_def)
    have rng: "weekday dt < 7" "dt_hour dt < 24"
      using weekday_less hour Some by simp_all
    from bump_ok [OF Cons.prems rng]
    obtain m1 where m1: "bump m (weekday dt) (dt_hour dt) = Inr m1" "matrix_7x24 m1"
      "sum_list (map sum_list m1) = Suc (sum_list (map sum_list m))"
      "\<forall>i < 7. \<forall>j < 24.
         m1 ! i ! j = m ! i ! j + (if i = weekday dt \<and> j = dt_hour dt then 1 else 0)"
      by blast
    from Cons.IH [OF m1(2)]
    obtain m' where m': "heatmap_rows fromisoformat m1 tss = Inr m'" "matrix_7x24 m'"
      "sum_list (map sum_list m')
         = sum_list (map sum_list m1) + length (filter (\<lambda>ts. fromisoformat ts \<noteq> None) tss)"
      "\<forall>i < 7. \<forall>j < 24.
         m' ! i ! j
           = m1 ! i ! j + length (filter (\<lambda>ts. heatmap_cell fromisoformat ts = Some (i, j)) tss)"
      by blast
    have run: "heatmap_rows fromisoformat m (ts # tss) = Inr m'"
      using Some m1(1) m'(1) by simp
    have total: "sum_list (map sum_list m')
        = sum_list (map sum_list m)
          + length (filter (\<lambda>ts. fromisoformat ts \<noteq> None) (ts # tss))"
      using m'(3) m1(3) Some by simp
    have cells: "m' ! i ! j
        = m ! i ! j
          + length (filter (\<lambda>ts. heatmap_cell fromisoformat ts = Some (i, j)) (ts # tss))"
      if "i < 7" "j < 24" for i j
      using that m'(4) m1(4) cell by auto
    show ?thesis
      using run m'(2) total cells by blast
  qed
qed

lemma matrix_7x24_zero: "matrix_7x24 (replicate 7 (replicate 24 0))"
  by (simp add: matrix_7x24_def)

lemma sum_list_zero_matrix: "sum_list (map sum_list (replicate 7 (replicate 24 (0::nat)))) = 0"
  by (simp add: sum_list_replicate)

lemma filter_window_map:
  "filter P [tp_timestamp tp. tp \<leftarrow> tps, cutoff \<le> tp_timestamp tp]
     = map tp_timestamp (filter (\<lambda>tp. cutoff \<le> tp_timestamp tp \<and> P (tp_timestamp tp)) tps)"
  by (induction tps) simp_all

text \<open>
  Claim C7, as the code has it. Take any parser for \<^verbatim>\<open>datetime.fromisoformat\<close> whose
  results have an hour below 24, and a window for which the cutoff is computed: the span of
  \<open>hours\<close> is within the library's range and so is the date it leads to. Then, for every
  storage state, \<^verbatim>\<open>get_journey_heatmap\<close> returns (no index is ever out of range), and
  the total it reports is the sum of the cells of its 7 by 24 matrix, which is the number of
  touchpoints in the window whose timestamp parses; a timestamp that does not parse changes
  nothing. Cell \<open>[day][h]\<close> is the number of touchpoints in the window stamped on weekday
  \<open>day\<close>, counted from Monday as 0, at hour \<open>h\<close>, and the day labels start with Monday.
\<close>

theorem heatmap_total_is_cell_sum:
  assumes "\<And>ts dt. fromisoformat ts = Some dt \<Longrightarrow> dt_hour dt < 24"
    and "timedelta_hours hours = Inr delta"
    and "utcnow_minus delta = Inr cutoff"
  shows "\<exists>r. get_journey_heatmap fromisoformat utcnow_minus d hours = Inr r
     \<and> total_touchpoints r = sum_list (map sum_list (matrix r))
     \<and> total_touchpoints r
         = length (filter (\<lambda>tp. cutoff \<le> tp_timestamp tp
                              \<and> fromisoformat (tp_timestamp tp) \<noteq> None) (touchpoints d))
     \<and> length (matrix r) = 7
     \<and> (\<forall>row \<in> set (matrix r). length row = 24)
     \<and> (\<forall>day < 7. \<forall>h < 24.
           matrix r ! day ! h
             = length (filter (\<lambda>tp. cutoff \<le> tp_timestamp tp
                                  \<and> heatmap_cell fromisoformat (tp_timestamp tp) = Some (day, h))
                         (touchpoints d)))
     \<and> day_labels r = [''Mon'', ''Tue'', ''Wed'', ''Thu'', ''Fri'', ''Sat'', ''Sun'']"
proof -
  let ?tss = "[tp_timestamp tp. tp \<leftarrow> touchpoints d, cutoff \<le> tp_timestamp tp]"
  let ?z = "replicate 7 (replicate 24 (0::nat))"
  have hour: "\<forall>ts dt. fromisoformat ts = Some dt \<longrightarrow> dt_hour dt < 24"
    using assms(1) by blast
  from heatmap_rows_ok [where tss = ?tss, OF hour matrix_7x24_zero]
  obtain m where m: "heatmap_rows fromisoformat ?z ?tss = Inr m" "matrix_7x24 m"
    "sum_list (map sum_list m)
       = sum_list (map sum_list ?z) + length (filter (\<lambda>ts. fromisoformat ts \<noteq> None) ?tss)"
    "\<forall>i < 7. \<forall>j < 24.
       m ! i ! j
         = ?z ! i ! j + length (filter (\<lambda>ts. heatmap_cell fromisoformat ts = Some (i, j)) ?tss)"
    by blast
  let ?r = "\<lparr>matrix = m,
             day_labels = [''Mon'', ''Tue'', ''Wed'', ''Thu'', ''Fri'', ''Sat'', ''Sun''],
             hour_labels = map (\<lambda>h. pad2 h @ '':00'') [0..<24],
             total_touchpoints = sum_list (map sum_list m)\<rparr>"
  have run: "get_journey_heatmap fromisoformat utcnow_minus d hours = Inr ?r"
    using m(1) assms(2,3) by (simp add: get_journey_heatmap_def)
  have total: "sum_list (map sum_list m)
      = length (filter (\<lambda>tp. cutoff \<le> tp_timestamp tp
                           \<and> fromisoformat (tp_timestamp tp) \<noteq> None) (touchpoints d))"
    unfolding m(3) sum_list_zero_matrix filter_window_map by simp
  have cells: "m ! i ! j
      = length (filter (\<lambda>tp. cutoff \<le> tp_timestamp tp
                           \<and> heatmap_cell fromisoformat (tp_timestamp tp) = Some (i, j))
                  (touchpoints d))"
    if "i < 7" "j < 24" for i j
    using that m(4) unfolding filter_window_map by simp
  have shape: "length m = 7" "\<forall>row \<in> set m. length row = 24"
    using m(2) by (simp_all add: matrix_7x24_def)
  show ?thesis
    using run total cells shape by (intro exI [of _ ?r]) simp
qed

text \<open>
  The second of November 2026 is a Monday and the eighth a Sunday: weekday 0 and weekday 6.
\<close>

lemma heatmap_cell_examples:
  "heatmap_cell parse_isoformat ''2026-10-01T08:00:00'' = Some (3, 8)"
  "heatmap_cell parse_isoformat ''2026-11-02T09:00:00'' = Some (0, 9)"
  "heatmap_cell parse_isoformat ''2026-11-08T23:59:59.123456'' = Some (6, 23)"
  "heatmap_cell parse_isoformat ''yesterday'' = None"
  by (simp_all add: heatmap_cell_def parse_isoformat_def parse_digits_def digit_val_def
      days_in_month_def is_leap_def weekday_def toordinal_def days_before_year_def
      days_before_month_def upt_conv_Cons)

text \<open>
  At a concrete state, with the parser of the timestamps the program writes and a clock at
  which a week ago is the first of November 2026: of four touchpoints one is before the
  window and one does not parse; the total is 2, in the cells of Monday at 9 and of Sunday
  at 23.
\<close>

theorem heatmap_witness:
  "timedelta_hours 168 = Inr 168
   \<and> (\<exists>r. get_journey_heatmap parse_isoformat (\<lambda>delta. Inr ''2026-11-01T00:00:00'')
            db_heatmap 168 = Inr r
     \<and> total_touchpoints r = 2
     \<and> sum_list (map sum_list (matrix r)) = 2
     \<and> matrix r ! 0 ! 9 = 1
     \<and> matrix r ! 6 ! 23 = 1
     \<and> matrix r ! 3 ! 8 = 0)"
proof -
  let ?tps = "touchpoints db_heatmap"
  let ?c = "''2026-11-01T00:00:00''"
  let ?clock = "\<lambda>delta::int. (Inr ?c :: error + string)"
  have span: "timedelta_hours 168 = Inr 168"
    by (simp add: timedelta_hours_def)
  have "\<exists>r. get_journey_heatmap parse_isoformat ?clock db_heatmap 168 = Inr r
     \<and> total_touchpoints r = sum_list (map sum_list (matrix r))
     \<and> total_touchpoints r
         = length (filter (\<lambda>tp. ?c \<le> tp_timestamp tp
                              \<and> parse_isoformat (tp_timestamp tp) \<noteq> None) ?tps)
     \<and> length (matrix r) = 7
     \<and> (\<forall>row \<in> set (matrix r). length row = 24)
     \<and> (\<forall>day < 7. \<forall>h < 24.
           matrix r ! day ! h
             = length (filter (\<lambda>tp. ?c \<le> tp_timestamp tp
                                  \<and> heatmap_cell parse_isoformat (tp_timestamp tp)
                                      = Some (day, h)) ?tps))
     \<and> day_labels r = [''Mon'', ''Tue'', ''Wed'', ''Thu'', ''Fri'', ''Sat'', ''Sun'']"
  proof (rule heatmap_total_is_cell_sum [where hours = 168 and delta = 168])
    show "dt_hour dt < 24" if "parse_isoformat ts = Some dt" for ts dt
      using that by (rule parse_isoformat_hour)
    show "timedelta_hours 168 = Inr 168"
      by (rule span)
    show "?clock 168 = Inr ?c"
      by simp
  qed
  then obtain r where r: "get_journey_heatmap parse_isoformat ?clock db_heatmap 168 = Inr r"
    "total_touchpoints r = sum_list (map sum_list (matrix r))"
    "total_touchpoints r
       = length (filter (\<lambda>tp. ?c \<le> tp_timestamp tp
                            \<and> parse_isoformat (tp_timestamp tp) \<noteq> None) ?tps)"
    "\<forall>day < 7. \<forall>h < 24.
       matrix r ! day ! h
         = length (filter (\<lambda>tp. ?c \<le> tp_timestamp tp
                              \<and> heatmap_cell parse_isoformat (tp_timestamp tp) = Some (day, h))
                     ?tps)"
    by blast
  have tps: "?tps =
      [mk_touchpoint ''t0'' ''s1'' ''page_view'' ''2026-10-01T08:00:00'',
       mk_touchpoint ''t1'' ''s1'' ''page_view'' ''2026-11-02T09:00:00'',
       mk_touchpoint ''t2'' ''s1'' ''search'' ''yesterday'',
       mk_touchpoint ''t3'' ''s2'' ''search'' ''2026-11-08T23:59:59.123456'']"
    by (simp add: db_heatmap_def init_db_def)
  have total: "total_touchpoints r = 2"
    unfolding r(3) tps
    by (simp add: mk_touchpoint_def heatmap_cell_None [symmetric] heatmap_cell_examples)
  have c09: "matrix r ! 0 ! 9 = 1"
    using r(4) [rule_format, of 0 9] unfolding tps
    by (simp add: mk_touchpoint_def heatmap_cell_examples)
  have c623: "matrix r ! 6 ! 23 = 1"
    using r(4) [rule_format, of 6 23] unfolding tps
    by (simp add: mk_touchpoint_def heatmap_cell_examples)
  have c38: "matrix r ! 3 ! 8 = 0"
    using r(4) [rule_format, of 3 8] unfolding tps
    by (simp add: mk_touchpoint_def heatmap_cell_examples)
  show ?thesis
    using span r(1,2) total c09 c623 c38 by (intro conjI exI [of _ r]) simp_all
qed

text \<open>
  Claim C7 as stated fails for a window that the library cannot compute: the heatmap of the
  last \<open>24 * 10^9\<close> hours, a span of a thousand million days, is asked for, and the call
  raises instead of returning a matrix and a total.
\<close>

theorem heatmap_window_counterexample:
  "get_journey_heatmap parse_isoformat (\<lambda>delta. Inr ''2026-11-01T00:00:00'') db_heatmap
     24000000000 = Inl OverflowError"
  by (simp add: get_journey_heatmap_def timedelta_hours_def)

end
